theory Spec2Isabelle
  imports Main "HOL-Library.Sublist"
begin

section \<open>Newshardbot: a news-index scanner that posts fresh articles to a channel\<close>

text \<open>
  A shallow embedding of \<^verbatim>\<open>Newshardbot.py\<close>. Python strings are byte lists
  (\<^typ>\<open>string\<close>) holding the UTF-8 encoding of the text, so the non-ASCII literals of
  the source appear as explicit bytes. Points in time are microseconds since the epoch in
  UTC (\<^typ>\<open>int\<close>), the resolution of Python's \<^verbatim>\<open>datetime\<close>.
\<close>

subsection \<open>Settings\<close>

definition MAX_POSTS_PER_RUN :: nat where
  "MAX_POSTS_PER_RUN = 2"

definition WINDOW_HOURS :: int where
  "WINDOW_HOURS = 48"

definition PAGES_TO_SCAN :: nat where
  "PAGES_TO_SCAN = 6"

definition ARTICLES_PER_PAGE_HINT :: nat where
  "ARTICLES_PER_PAGE_HINT = 48"

definition NEWS_INDEX_URL :: string where
  "NEWS_INDEX_URL = ''https://worldoftanks.eu/ru/news/''"

text \<open>\<^verbatim>\<open>timedelta(hours=h)\<close> in microseconds.\<close>

definition timedelta_hours :: "int \<Rightarrow> int" where
  "timedelta_hours h = h * 3600 * 1000000"

subsection \<open>The table of posted articles\<close>

text \<open>
  The table \<^verbatim>\<open>posted(url TEXT PRIMARY KEY, title, tag, posted_at)\<close> is the list of
  its rows in insertion order. The database file either has the table or not.
\<close>

record posted_row =
  row_url :: string
  row_title :: string
  row_tag :: string
  row_posted_at :: int

type_synonym posted_table = "posted_row list"

text \<open>\<^verbatim>\<open>CREATE TABLE IF NOT EXISTS\<close>: an existing table is left as it is.\<close>

definition init_db :: "posted_table option \<Rightarrow> posted_table" where
  "init_db file = (case file of None \<Rightarrow> [] | Some rows \<Rightarrow> rows)"

text \<open>\<^verbatim>\<open>SELECT 1 FROM posted WHERE url=?\<close>, then \<^verbatim>\<open>fetchone() is not None\<close>.\<close>

definition already_posted :: "posted_table \<Rightarrow> string \<Rightarrow> bool" where
  "already_posted db u = (find (\<lambda>r. row_url r = u) db \<noteq> None)"

text \<open>
  \<^verbatim>\<open>INSERT OR IGNORE\<close>: the row is appended unless it would violate the primary key,
  in which case the statement does nothing. The last argument is the reading of the clock
  that the source takes for \<^verbatim>\<open>posted_at\<close>.
\<close>

definition mark_posted :: "posted_table \<Rightarrow> string \<Rightarrow> string \<Rightarrow> string \<Rightarrow> int \<Rightarrow> posted_table" where
  "mark_posted db u t g now =
     (if list_ex (\<lambda>r. row_url r = u) db then db
      else db @ [\<lparr>row_url = u, row_title = t, row_tag = g, row_posted_at = now\<rparr>])"

text \<open>The primary-key constraint: no two rows carry the same url.\<close>

definition primary_key_ok :: "posted_table \<Rightarrow> bool" where
  "primary_key_ok db = distinct (map row_url db)"

definition rows_for :: "posted_table \<Rightarrow> string \<Rightarrow> posted_row list" where
  "rows_for db u = filter (\<lambda>r. row_url r = u) db"

subsection \<open>Escaping\<close>

text \<open>\<^verbatim>\<open>s.replace(c, r)\<close> for a one-character pattern \<open>c\<close>.\<close>

definition str_replace1 :: "char \<Rightarrow> string \<Rightarrow> string \<Rightarrow> string" where
  "str_replace1 c r s = concat (map (\<lambda>x. if x = c then r else [x]) s)"

definition html_escape :: "string \<Rightarrow> string" where
  "html_escape s =
     str_replace1 (CHR 0x22) ''&quot;''
       (str_replace1 (CHR ''>'') ''&gt;''
         (str_replace1 (CHR ''<'') ''&lt;''
           (str_replace1 (CHR ''&'') ''&amp;'' s)))"

text \<open>What the four replacements amount to, character by character.\<close>

definition escape_char :: "char \<Rightarrow> string" where
  "escape_char c =
     (if c = CHR ''&'' then ''&amp;''
      else if c = CHR ''<'' then ''&lt;''
      else if c = CHR ''>'' then ''&gt;''
      else if c = CHR 0x22 then ''&quot;''
      else [c])"

subsection \<open>Text constants\<close>

text \<open>
  The literals of the source that are not ASCII, as their UTF-8 bytes. The comment before
  each gives the Unicode code points.
\<close>

text \<open>The fallback title of the formatter, two Cyrillic words: U+0411 U+0435 U+0437 U+0020 U+043D U+0430 U+0437 U+0432 U+0430 U+043D U+0438 U+044F.\<close>

definition lit_no_title :: string where
  "lit_no_title =
     [CHR 0xD0, CHR 0x91, CHR 0xD0, CHR 0xB5, CHR 0xD0, CHR 0xB7] @ '' '' @ [CHR 0xD0,
     CHR 0xBD, CHR 0xD0, CHR 0xB0, CHR 0xD0, CHR 0xB7, CHR 0xD0, CHR 0xB2, CHR 0xD0,
     CHR 0xB0, CHR 0xD0, CHR 0xBD, CHR 0xD0, CHR 0xB8, CHR 0xD1, CHR 0x8F]"

text \<open>The fallback title of the run, one Cyrillic word: U+041D U+043E U+0432 U+043E U+0441 U+0442 U+044C.\<close>

definition lit_news :: string where
  "lit_news =
     [CHR 0xD0, CHR 0x9D, CHR 0xD0, CHR 0xBE, CHR 0xD0, CHR 0xB2, CHR 0xD0, CHR 0xBE,
     CHR 0xD1, CHR 0x81, CHR 0xD1, CHR 0x82, CHR 0xD1, CHR 0x8C]"

text \<open>The placeholder for an absent date, an em dash: U+2014.\<close>

definition lit_dash :: string where
  "lit_dash =
     [CHR 0xE2, CHR 0x80, CHR 0x94]"

text \<open>The first line of every caption, ending in a newline: U+1F4F0, the bold text with a bullet U+2022 and a Cyrillic word.\<close>

definition lit_header :: string where
  "lit_header =
     [CHR 0xF0, CHR 0x9F, CHR 0x93, CHR 0xB0] @ '' <b>WoT EU '' @ [CHR 0xE2, CHR 0x80,
     CHR 0xA2] @ '' '' @ [CHR 0xD0, CHR 0x9D, CHR 0xD0, CHR 0x9E, CHR 0xD0, CHR 0x92,
     CHR 0xD0, CHR 0x9E, CHR 0xD0, CHR 0xA1, CHR 0xD0, CHR 0xA2, CHR 0xD0, CHR 0x98]
     @ ''</b>'' @ [CHR 0x0A]"

text \<open>The start of the date line: U+1F4C5 and a Cyrillic word.\<close>

definition lit_date_prefix :: string where
  "lit_date_prefix =
     [CHR 0xF0, CHR 0x9F, CHR 0x93, CHR 0x85] @ '' '' @ [CHR 0xD0, CHR 0x94, CHR 0xD0,
     CHR 0xB0, CHR 0xD1, CHR 0x82, CHR 0xD0, CHR 0xB0] @ '': <b>''"

text \<open>The start of the section line: U+1F4CC and a Cyrillic word.\<close>

definition lit_section_prefix :: string where
  "lit_section_prefix =
     [CHR 0xF0, CHR 0x9F, CHR 0x93, CHR 0x8C] @ '' '' @ [CHR 0xD0, CHR 0xA0, CHR 0xD0,
     CHR 0xB0, CHR 0xD0, CHR 0xB7, CHR 0xD0, CHR 0xB4, CHR 0xD0, CHR 0xB5, CHR 0xD0,
     CHR 0xBB] @ '': <b>''"

text \<open>The start of the hashtag line: U+1F3F7 U+FE0F, a space and the hash sign.\<close>

definition lit_hash_prefix :: string where
  "lit_hash_prefix =
     [CHR 0xF0, CHR 0x9F, CHR 0x8F, CHR 0xB7, CHR 0xEF, CHR 0xB8, CHR 0x8F] @ '' #''"

text \<open>The icon of a tag that has none of its own: U+1F4F0.\<close>

definition lit_default_icon :: string where
  "lit_default_icon =
     [CHR 0xF0, CHR 0x9F, CHR 0x93, CHR 0xB0]"

text \<open>The text of the link appended to a message without image, one Cyrillic word.\<close>

definition lit_open :: string where
  "lit_open =
     [CHR 0xD0, CHR 0x9E, CHR 0xD1, CHR 0x82, CHR 0xD0, CHR 0xBA, CHR 0xD1, CHR 0x80,
     CHR 0xD1, CHR 0x8B, CHR 0xD1, CHR 0x82, CHR 0xD1, CHR 0x8C]"

subsection \<open>Styling tables\<close>

definition icon_mapping :: "(string \<times> string) list" where
  "icon_mapping =
    [(''updates'',
      [CHR 0xF0, CHR 0x9F, CHR 0x9B, CHR 0xA0, CHR 0xEF, CHR 0xB8, CHR 0x8F]),
     (''specials'',
      [CHR 0xF0, CHR 0x9F, CHR 0x8E, CHR 0x81]),
     (''general-news'',
      [CHR 0xF0, CHR 0x9F, CHR 0x93, CHR 0xA2]),
     (''merchandise'',
      [CHR 0xF0, CHR 0x9F, CHR 0x9B, CHR 0x8D, CHR 0xEF, CHR 0xB8, CHR 0x8F]),
     (''clan'',
      [CHR 0xF0, CHR 0x9F, CHR 0x9B, CHR 0xA1, CHR 0xEF, CHR 0xB8, CHR 0x8F]),
     (''tournaments'',
      [CHR 0xF0, CHR 0x9F, CHR 0x8F, CHR 0x86]),
     (''competitive-gaming'',
      [CHR 0xF0, CHR 0x9F, CHR 0x8F, CHR 0x86]),
     (''community'',
      [CHR 0xF0, CHR 0x9F, CHR 0x91, CHR 0xA5]),
     (''live-streams'',
      [CHR 0xF0, CHR 0x9F, CHR 0x93, CHR 0xBA]),
     (''guides'',
      [CHR 0xF0, CHR 0x9F, CHR 0x93, CHR 0x98]),
     (''ranked'',
      [CHR 0xF0, CHR 0x9F, CHR 0x8E, CHR 0x96, CHR 0xEF, CHR 0xB8, CHR 0x8F]),
     (''frontline'',
      [CHR 0xF0, CHR 0x9F, CHR 0x9A, CHR 0x9A]),
     (''battle-pass'',
      [CHR 0xF0, CHR 0x9F, CHR 0x8E, CHR 0x9F, CHR 0xEF, CHR 0xB8, CHR 0x8F]),
     (''common-test'',
      [CHR 0xF0, CHR 0x9F, CHR 0xA7, CHR 0xAA]),
     (''test'',
      [CHR 0xF0, CHR 0x9F, CHR 0xA7, CHR 0xAA])]"

definition label_mapping :: "(string \<times> string) list" where
  "label_mapping =
    [(''updates'',
      [CHR 0xD0, CHR 0x9E, CHR 0xD0, CHR 0xB1, CHR 0xD0, CHR 0xBD, CHR 0xD0, CHR 0xBE,
      CHR 0xD0, CHR 0xB2, CHR 0xD0, CHR 0xBB, CHR 0xD0, CHR 0xB5, CHR 0xD0, CHR 0xBD,
      CHR 0xD0, CHR 0xB8, CHR 0xD1, CHR 0x8F]),
     (''specials'',
      [CHR 0xD0, CHR 0x90, CHR 0xD0, CHR 0xBA, CHR 0xD1, CHR 0x86, CHR 0xD0, CHR 0xB8,
      CHR 0xD0, CHR 0xB8]),
     (''general-news'',
      [CHR 0xD0, CHR 0x9D, CHR 0xD0, CHR 0xBE, CHR 0xD0, CHR 0xB2, CHR 0xD0, CHR 0xBE,
      CHR 0xD1, CHR 0x81, CHR 0xD1, CHR 0x82, CHR 0xD0, CHR 0xB8]),
     (''merchandise'',
      [CHR 0xD0, CHR 0x9C, CHR 0xD0, CHR 0xB5, CHR 0xD1, CHR 0x80, CHR 0xD1, CHR 0x87]),
     (''common-test'',
      [CHR 0xD0, CHR 0xA2, CHR 0xD0, CHR 0xB5, CHR 0xD1, CHR 0x81, CHR 0xD1, CHR 0x82]),
     (''test'',
      [CHR 0xD0, CHR 0xA2, CHR 0xD0, CHR 0xB5, CHR 0xD1, CHR 0x81, CHR 0xD1, CHR 0x82])]"

definition hashtag_mapping :: "(string list \<times> string) list" where
  "hashtag_mapping =
    [([[CHR 0xD0, CHR 0xBF, CHR 0xD0, CHR 0xB0, CHR 0xD1, CHR 0x82, CHR 0xD1, CHR 0x87],
       [CHR 0xD0, CHR 0xBE, CHR 0xD0, CHR 0xB1, CHR 0xD0, CHR 0xBD, CHR 0xD0, CHR 0xBE,
        CHR 0xD0, CHR 0xB2, CHR 0xD0, CHR 0xBB, CHR 0xD0, CHR 0xB5, CHR 0xD0, CHR 0xBD],
       [CHR 0xD0, CHR 0xBC, CHR 0xD0, CHR 0xB8, CHR 0xD0, CHR 0xBA, CHR 0xD1, CHR 0x80,
        CHR 0xD0, CHR 0xBE, CHR 0xD0, CHR 0xBF, CHR 0xD0, CHR 0xB0, CHR 0xD1, CHR 0x82,
        CHR 0xD1, CHR 0x87],
       ''update''],
      ''#patch''),
     ([[CHR 0xD0, CHR 0xB0, CHR 0xD0, CHR 0xBA, CHR 0xD1, CHR 0x86],
       [CHR 0xD1, CHR 0x81, CHR 0xD0, CHR 0xBA, CHR 0xD0, CHR 0xB8, CHR 0xD0, CHR 0xB4],
       [CHR 0xD1, CHR 0x80, CHR 0xD0, CHR 0xB0, CHR 0xD1, CHR 0x81, CHR 0xD0, CHR 0xBF,
        CHR 0xD1, CHR 0x80, CHR 0xD0, CHR 0xBE, CHR 0xD0, CHR 0xB4],
       ''sale'',
       ''%''],
      ''#sale''),
     ([[CHR 0xD0, CHR 0xB8, CHR 0xD0, CHR 0xB2, CHR 0xD0, CHR 0xB5, CHR 0xD0, CHR 0xBD,
        CHR 0xD1, CHR 0x82],
       [CHR 0xD1, CHR 0x81, CHR 0xD0, CHR 0xBE, CHR 0xD0, CHR 0xB1, CHR 0xD1, CHR 0x8B,
        CHR 0xD1, CHR 0x82],
       ''event'',
       [CHR 0xD0, CHR 0xBC, CHR 0xD0, CHR 0xB8, CHR 0xD1, CHR 0x81, CHR 0xD1, CHR 0x81,
        CHR 0xD0, CHR 0xB8],
       [CHR 0xD0, CHR 0xB7, CHR 0xD0, CHR 0xB0, CHR 0xD0, CHR 0xB4, CHR 0xD0, CHR 0xB0,
        CHR 0xD1, CHR 0x87]],
      ''#event''),
     ([[CHR 0xD1, CHR 0x82, CHR 0xD1, CHR 0x83, CHR 0xD1, CHR 0x80, CHR 0xD0, CHR 0xBD,
        CHR 0xD0, CHR 0xB8, CHR 0xD1, CHR 0x80],
       ''tournament''],
      ''#tournament''),
     ([[CHR 0xD0, CHR 0xBF, CHR 0xD1, CHR 0x80, CHR 0xD0, CHR 0xB5, CHR 0xD0, CHR 0xBC],
       ''premium''],
      ''#premium''),
     ([[CHR 0xD1, CHR 0x82, CHR 0xD0, CHR 0xB5, CHR 0xD1, CHR 0x81, CHR 0xD1, CHR 0x82],
       ''common test'',
       [CHR 0xD0, CHR 0xBE, CHR 0xD0, CHR 0xB1, CHR 0xD1, CHR 0x89, CHR 0xD0, CHR 0xB5,
        CHR 0xD0, CHR 0xBC] @ '' '' @ [CHR 0xD1, CHR 0x82, CHR 0xD0, CHR 0xB5, CHR 0xD1,
        CHR 0x81, CHR 0xD1, CHR 0x82]],
      ''#test''),
     ([[CHR 0xD0, CHR 0xBA, CHR 0xD0, CHR 0xB0, CHR 0xD1, CHR 0x80, CHR 0xD1, CHR 0x82,
        CHR 0xD0, CHR 0xB0],
       ''map''],
      ''#maps''),
     ([[CHR 0xD1, CHR 0x82, CHR 0xD0, CHR 0xB0, CHR 0xD0, CHR 0xBD, CHR 0xD0, CHR 0xBA],
       [CHR 0xD0, CHR 0xB2, CHR 0xD0, CHR 0xB5, CHR 0xD1, CHR 0x82, CHR 0xD0, CHR 0xBA],
       ''branch''],
      ''#tanks'')]"

subsection \<open>The outside world\<close>

text \<open>
  Everything the script does not compute itself is a field of one record: the environment
  variables, the clock, the network, and the library functions whose results it uses
  (\<^verbatim>\<open>urllib.parse\<close>, \<^verbatim>\<open>datetime\<close>, \<^verbatim>\<open>json\<close>, \<^verbatim>\<open>str\<close> methods, \<^verbatim>\<open>zoneinfo\<close>).
  The theorems hold for every such world.
\<close>

text \<open>
  A parsed HTML document is the list of its elements in document order. An element has
  its tag name, its attributes and the text strings inside it, in order.
\<close>

record element =
  el_name :: string
  el_attrs :: "(string \<times> string) list"
  el_strings :: "string list"

type_synonym soup = "element list"

text \<open>
  The value of \<^verbatim>\<open>json.loads\<close>. Of a number only its truth value is ever looked at, so
  an integer stands for it.
\<close>

datatype json =
    JNull
  | JBool bool
  | JNum int
  | JStr string
  | JArr "json list"
  | JObj "(string \<times> json) list"

text \<open>
  The value of \<^verbatim>\<open>datetime.fromisoformat\<close>: the wall-clock reading in microseconds and
  the offset from UTC in microseconds, absent for a naive datetime.
\<close>

record pydatetime =
  wall :: int
  utcoffset :: "int option"

text \<open>The six components of \<^verbatim>\<open>urlparse\<close>.\<close>

record parse_result =
  scheme :: string
  netloc :: string
  path :: string
  params :: string
  query :: string
  fragment :: string

text \<open>
  The two requests to the messaging API, with the fields that vary: the chat
  (\<^verbatim>\<open>CHANNEL\<close>), the photo or the text, and the url of the button.
\<close>

datatype tg_call =
    SendPhoto "string option" string string string
  | SendMessage "string option" string string

text \<open>What \<^verbatim>\<open>requests.post\<close> does: a response that is ok, one that is not, or an exception.\<close>

datatype post_result = Post_ok | Post_not_ok | Post_raised

record ext =
  env_bot_token :: "string option"
  env_channel :: "string option"
  clock :: "nat \<Rightarrow> int"
  http_get :: "string \<Rightarrow> soup option"
  tg_post :: "tg_call \<Rightarrow> post_result"
  urljoin :: "string \<Rightarrow> string \<Rightarrow> string"
  urlparse :: "string \<Rightarrow> parse_result"
  geturl :: "parse_result \<Rightarrow> string"
  fromisoformat :: "string \<Rightarrow> pydatetime option"
  json_loads :: "string \<Rightarrow> json option"
  str_strip :: "string \<Rightarrow> string"
  str_lower :: "string \<Rightarrow> string"
  strftime_local :: "int \<Rightarrow> string"

text \<open>
  \<^item> \<open>clock x n\<close> is the \<open>n\<close>-th reading of \<^verbatim>\<open>datetime.now(timezone.utc)\<close> in a run.
  \<^item> \<open>http_get x u\<close> is \<^verbatim>\<open>requests.get(u)\<close>, \<^verbatim>\<open>raise_for_status()\<close> and the parse by
    \<^verbatim>\<open>BeautifulSoup\<close>; \<open>None\<close> when one of them raises.
  \<^item> \<open>strftime_local x t\<close> is the conversion of \<open>t\<close> to Europe/Berlin (or \<open>t\<close> itself
    where the zone data is missing) printed as \<^verbatim>\<open>%d.%m.%Y %H:%M\<close>.
\<close>

datatype error =
    Missing_config
  | Request_failed string
  | Telegram_api_error
  | Telegram_request_failed

subsection \<open>Python idioms\<close>

text \<open>\<^verbatim>\<open>a or b\<close> on strings, and on an optional string followed by a string.\<close>

definition py_or :: "string \<Rightarrow> string \<Rightarrow> string" where
  "py_or a b = (if a = [] then b else a)"

definition opt_or :: "string option \<Rightarrow> string \<Rightarrow> string" where
  "opt_or a b = (case a of None \<Rightarrow> b | Some s \<Rightarrow> py_or s b)"

text \<open>The truth value of an optional string: \<^verbatim>\<open>None\<close> and the empty string are false.\<close>

definition truthy :: "string option \<Rightarrow> bool" where
  "truthy a = (case a of None \<Rightarrow> False | Some s \<Rightarrow> s \<noteq> [])"

text \<open>\<^verbatim>\<open>sep.join(xs)\<close>.\<close>

fun join :: "string \<Rightarrow> string list \<Rightarrow> string" where
  "join sep [] = []"
| "join sep [s] = s"
| "join sep (s # t # ts) = s @ sep @ join sep (t # ts)"

text \<open>
  The loop commented \<^verbatim>\<open>unique keep order\<close>: an item is kept unless its key was seen.
\<close>

fun unique_keep_order :: "('a \<Rightarrow> 'k) \<Rightarrow> 'k set \<Rightarrow> 'a list \<Rightarrow> 'a list" where
  "unique_keep_order key seen [] = []"
| "unique_keep_order key seen (x # xs) =
     (if key x \<in> seen then unique_keep_order key seen xs
      else x # unique_keep_order key (insert (key x) seen) xs)"

text \<open>\<^verbatim>\<open>str(n)\<close> for a natural number.\<close>

fun str_of_nat :: "nat \<Rightarrow> string" where
  "str_of_nat n =
     (if n < 10 then [char_of (48 + n)]
      else str_of_nat (n div 10) @ [char_of (48 + n mod 10)])"

declare str_of_nat.simps [simp del]

subsection \<open>Styling\<close>

text \<open>\<^verbatim>\<open>mapping.get(tag, default)\<close> on the two dictionaries.\<close>

definition tag_to_icon :: "string \<Rightarrow> string" where
  "tag_to_icon tag = (case map_of icon_mapping tag of None \<Rightarrow> lit_default_icon | Some i \<Rightarrow> i)"

definition tag_to_label :: "string \<Rightarrow> string" where
  "tag_to_label tag = (case map_of label_mapping tag of None \<Rightarrow> tag | Some l \<Rightarrow> l)"

text \<open>\<^verbatim>\<open>k in t\<close> on strings is \<^const>\<open>sublist\<close>: \<open>k\<close> occurs in \<open>t\<close> as a contiguous piece.\<close>

definition extra_hashtags_by_title :: "ext \<Rightarrow> string \<Rightarrow> string list" where
  "extra_hashtags_by_title x title =
     (let t = str_lower x (py_or title []);
          tags = map snd (filter (\<lambda>(keys, tag). list_ex (\<lambda>k. sublist k t) keys) hashtag_mapping)
      in unique_keep_order (\<lambda>h. h) {} tags)"

definition format_dt :: "ext \<Rightarrow> int option \<Rightarrow> string" where
  "format_dt x dt_utc = (case dt_utc of None \<Rightarrow> lit_dash | Some t \<Rightarrow> strftime_local x t)"

definition format_caption_style2 :: "ext \<Rightarrow> string \<Rightarrow> string \<Rightarrow> int option \<Rightarrow> string" where
  "format_caption_style2 x title tag published_dt_utc =
     (let safe_title = html_escape (py_or title lit_no_title);
          safe_label = html_escape (tag_to_label tag);
          safe_tag = html_escape tag;
          icon = tag_to_icon tag;
          dt_str = html_escape (format_dt x published_dt_utc);
          extra_tags = extra_hashtags_by_title x (py_or title []);
          extra_tags_str = join '' '' extra_tags;
          hashtags_line = lit_hash_prefix @ safe_tag;
          hashtags_line' =
            (if extra_tags_str \<noteq> [] then hashtags_line @ ''  '' @ html_escape extra_tags_str
             else hashtags_line)
      in lit_header
         @ icon @ '' <b>'' @ safe_title @ ''</b>'' @ [CHR 0x0A]
         @ lit_date_prefix @ dt_str @ ''</b>'' @ [CHR 0x0A]
         @ lit_section_prefix @ safe_label @ ''</b>'' @ [CHR 0x0A]
         @ hashtags_line')"

subsection \<open>Reading a parsed document\<close>

text \<open>
  \<^verbatim>\<open>soup.find(name, attrs={k: v})\<close>: the first element of that name whose attribute
  \<open>k\<close> is \<open>v\<close>; with no attribute asked for, the first element of that name.
\<close>

definition soup_find :: "soup \<Rightarrow> string \<Rightarrow> (string \<times> string) option \<Rightarrow> element option" where
  "soup_find doc name attr =
     find (\<lambda>e. el_name e = name
               \<and> (case attr of None \<Rightarrow> True | Some (k, v) \<Rightarrow> map_of (el_attrs e) k = Some v)) doc"

text \<open>\<^verbatim>\<open>el.get(k)\<close>.\<close>

definition attr_get :: "element \<Rightarrow> string \<Rightarrow> string option" where
  "attr_get e k = map_of (el_attrs e) k"

text \<open>
  \<^verbatim>\<open>el.get_text(sep, strip=True)\<close>: the stripped strings that are not empty, joined
  by \<open>sep\<close>.
\<close>

definition get_text :: "ext \<Rightarrow> string \<Rightarrow> element \<Rightarrow> string" where
  "get_text x sep e = join sep (filter (\<lambda>s. s \<noteq> []) (map (str_strip x) (el_strings e)))"

text \<open>
  The pattern \<^verbatim>\<open>^/ru/news/([^/]+)/([^/]+)/?$\<close> with \<^verbatim>\<open>match\<close>: the two groups when the
  string is the prefix, a category without slash, a slash, a slug without slash, and then
  nothing, a slash, or a slash and a final newline (where \<^verbatim>\<open>$\<close> matches too).
\<close>

definition article_path_match :: "string \<Rightarrow> (string \<times> string) option" where
  "article_path_match s =
     (if \<not> prefix ''/ru/news/'' s then None
      else
        let r = drop 9 s;
            cat = takeWhile (\<lambda>c. c \<noteq> CHR ''/'') r;
            r1 = dropWhile (\<lambda>c. c \<noteq> CHR ''/'') r
        in if cat = [] \<or> r1 = [] then None
           else
             let r2 = tl r1;
                 slug = takeWhile (\<lambda>c. c \<noteq> CHR ''/'') r2;
                 r3 = dropWhile (\<lambda>c. c \<noteq> CHR ''/'') r2
             in if slug = [] then None
                else if r3 = [] \<or> r3 = ''/'' \<or> r3 = [CHR ''/'', CHR 0x0A] then Some (cat, slug)
                else None)"

definition normalize_url :: "ext \<Rightarrow> string \<Rightarrow> string" where
  "normalize_url x u = geturl x ((urlparse x u)\<lparr>query := [], fragment := []\<rparr>)"

definition tag_from_article_url :: "ext \<Rightarrow> string \<Rightarrow> string" where
  "tag_from_article_url x article_url =
     (case article_path_match (path (urlparse x article_url)) of
        None \<Rightarrow> ''news''
      | Some (cat, slug) \<Rightarrow> cat)"

subsection \<open>The publication date\<close>

text \<open>
  \<^verbatim>\<open>astimezone(timezone.utc)\<close> after a naive value was given the zone UTC: the instant is
  the wall-clock reading minus the offset, and a naive reading is taken as it is.
\<close>

definition utc_instant :: "pydatetime \<Rightarrow> int" where
  "utc_instant d = (case utcoffset d of None \<Rightarrow> wall d | Some off \<Rightarrow> wall d - off)"

definition ends_with_Z :: "string \<Rightarrow> bool" where
  "ends_with_Z s = (s \<noteq> [] \<and> last s = CHR ''Z'')"

definition parse_iso_datetime :: "ext \<Rightarrow> string \<Rightarrow> int option" where
  "parse_iso_datetime x s =
     (if s = [] then None
      else
        let s1 = str_strip x s;
            s2 = (if ends_with_Z s1 then butlast s1 @ ''+00:00'' else s1)
        in case fromisoformat x s2 of
             None \<Rightarrow> None
           | Some d \<Rightarrow> Some (utc_instant d))"

text \<open>The truth value of a JSON value, as \<^verbatim>\<open>or\<close> sees it.\<close>

fun json_truthy :: "json \<Rightarrow> bool" where
  "json_truthy JNull = False"
| "json_truthy (JBool b) = b"
| "json_truthy (JNum n) = (n \<noteq> 0)"
| "json_truthy (JStr s) = (s \<noteq> [])"
| "json_truthy (JArr vs) = (vs \<noteq> [])"
| "json_truthy (JObj kvs) = (kvs \<noteq> [])"

text \<open>\<^verbatim>\<open>obj.get(k)\<close> on a dictionary: \<^verbatim>\<open>None\<close>, here \<open>JNull\<close>, for a missing key.\<close>

definition obj_get :: "(string \<times> json) list \<Rightarrow> string \<Rightarrow> json" where
  "obj_get kvs k = (case map_of kvs k of None \<Rightarrow> JNull | Some v \<Rightarrow> v)"

text \<open>The inner loop of \<^verbatim>\<open>extract_from_jsonld\<close>, over the objects of one script.\<close>

fun jsonld_objs :: "ext \<Rightarrow> json list \<Rightarrow> int option" where
  "jsonld_objs x [] = None"
| "jsonld_objs x (obj # objs) =
     (case obj of
        JObj kvs \<Rightarrow>
          (let dp = (if json_truthy (obj_get kvs ''datePublished'') then obj_get kvs ''datePublished''
                     else obj_get kvs ''dateCreated'')
           in case dp of
                JStr s \<Rightarrow>
                  (case parse_iso_datetime x s of
                     Some dt \<Rightarrow> Some dt
                   | None \<Rightarrow> jsonld_objs x objs)
              | _ \<Rightarrow> jsonld_objs x objs)
      | _ \<Rightarrow> jsonld_objs x objs)"

text \<open>The outer loop, over the scripts of type \<^verbatim>\<open>application/ld+json\<close>.\<close>

fun jsonld_scripts :: "ext \<Rightarrow> element list \<Rightarrow> int option" where
  "jsonld_scripts x [] = None"
| "jsonld_scripts x (script # scripts) =
     (let raw = get_text x [] script
      in if raw = [] then jsonld_scripts x scripts
         else case json_loads x raw of
                None \<Rightarrow> jsonld_scripts x scripts
              | Some data \<Rightarrow>
                  (let objs = (case data of JArr vs \<Rightarrow> vs | _ \<Rightarrow> [data])
                   in case jsonld_objs x objs of
                        Some dt \<Rightarrow> Some dt
                      | None \<Rightarrow> jsonld_scripts x scripts))"

definition extract_from_jsonld :: "ext \<Rightarrow> soup \<Rightarrow> int option" where
  "extract_from_jsonld x doc =
     jsonld_scripts x
       (filter (\<lambda>e. el_name e = ''script''
                    \<and> map_of (el_attrs e) ''type'' = Some ''application/ld+json'') doc)"

text \<open>The part of \<^verbatim>\<open>fetch_article_meta\<close> under the comment \<^verbatim>\<open>date\<close>.\<close>

definition meta_published_dt :: "ext \<Rightarrow> soup \<Rightarrow> int option" where
  "meta_published_dt x doc =
     (let published_dt =
            (case soup_find doc ''meta'' (Some (''property'', ''article:published_time'')) of
               None \<Rightarrow> None
             | Some meta \<Rightarrow>
                 if truthy (attr_get meta ''content'')
                 then parse_iso_datetime x (the (attr_get meta ''content''))
                 else None);
          published_dt =
            (if published_dt = None then
               (case soup_find doc ''time'' None of
                  None \<Rightarrow> published_dt
                | Some t \<Rightarrow>
                    if truthy (attr_get t ''datetime'')
                    then parse_iso_datetime x (the (attr_get t ''datetime''))
                    else published_dt)
             else published_dt);
          published_dt =
            (if published_dt = None then
               (case soup_find doc ''meta'' (Some (''itemprop'', ''datePublished'')) of
                  None \<Rightarrow> published_dt
                | Some meta2 \<Rightarrow>
                    if truthy (attr_get meta2 ''content'')
                    then parse_iso_datetime x (the (attr_get meta2 ''content''))
                    else published_dt)
             else published_dt);
          published_dt =
            (if published_dt = None then extract_from_jsonld x doc else published_dt)
      in published_dt)"

text \<open>The part under the comment \<^verbatim>\<open>image\<close>.\<close>

definition meta_image_url :: "ext \<Rightarrow> soup \<Rightarrow> string option" where
  "meta_image_url x doc =
     (let image_url =
            (case soup_find doc ''meta'' (Some (''property'', ''og:image'')) of
               None \<Rightarrow> None
             | Some og \<Rightarrow>
                 if truthy (attr_get og ''content'')
                 then Some (str_strip x (the (attr_get og ''content'')))
                 else None);
          image_url =
            (if \<not> truthy image_url then
               (case soup_find doc ''meta'' (Some (''name'', ''twitter:image'')) of
                  None \<Rightarrow> image_url
                | Some tw \<Rightarrow>
                    if truthy (attr_get tw ''content'')
                    then Some (str_strip x (the (attr_get tw ''content'')))
                    else image_url)
             else image_url);
          image_url =
            (if \<not> truthy image_url then
               (case soup_find doc ''meta'' (Some (''itemprop'', ''image'')) of
                  None \<Rightarrow> image_url
                | Some ip \<Rightarrow>
                    if truthy (attr_get ip ''content'')
                    then Some (str_strip x (the (attr_get ip ''content'')))
                    else image_url)
             else image_url)
      in image_url)"

text \<open>The part under the comment \<^verbatim>\<open>title fallback\<close>.\<close>

definition meta_title :: "ext \<Rightarrow> soup \<Rightarrow> string option" where
  "meta_title x doc =
     (let title =
            (case soup_find doc ''meta'' (Some (''property'', ''og:title'')) of
               None \<Rightarrow> None
             | Some ot \<Rightarrow>
                 if truthy (attr_get ot ''content'')
                 then Some (str_strip x (the (attr_get ot ''content'')))
                 else None);
          title =
            (if \<not> truthy title then
               (case soup_find doc ''title'' None of
                  None \<Rightarrow> title
                | Some te \<Rightarrow>
                    if get_text x [] te \<noteq> [] then Some (get_text x [] te) else title)
             else title)
      in title)"

text \<open>
  One request for the article; an exception of the request leaves through \<open>Inl\<close>.
\<close>

definition fetch_article_meta ::
  "ext \<Rightarrow> string \<Rightarrow> error + (int option \<times> string option \<times> string option)" where
  "fetch_article_meta x article_url =
     (case http_get x article_url of
        None \<Rightarrow> Inl (Request_failed article_url)
      | Some doc \<Rightarrow> Inr (meta_published_dt x doc, meta_image_url x doc, meta_title x doc))"





subsection \<open>Collecting links from the index\<close>

text \<open>
  One page of the index: every anchor with an \<^verbatim>\<open>href\<close> whose stripped value has the shape
  of an article path gives an item (normalized absolute url, link text); then the items are
  made unique by url, keeping the first of each. A failed request leaves through \<open>Inl\<close>:
  the source has no handler around it.
\<close>

definition index_item :: "ext \<Rightarrow> string \<Rightarrow> element \<Rightarrow> (string \<times> string) option" where
  "index_item x page_url a =
     (let href = str_strip x (the (attr_get a ''href''))
      in case article_path_match href of
           None \<Rightarrow> None
         | Some m \<Rightarrow> Some (normalize_url x (urljoin x page_url href), get_text x '' '' a))"

definition parse_news_index_page :: "ext \<Rightarrow> string \<Rightarrow> error + (string \<times> string) list" where
  "parse_news_index_page x page_url =
     (case http_get x page_url of
        None \<Rightarrow> Inl (Request_failed page_url)
      | Some doc \<Rightarrow>
          (let anchors = filter (\<lambda>e. el_name e = ''a'' \<and> attr_get e ''href'' \<noteq> None) doc;
               items = List.map_filter (index_item x page_url) anchors
           in Inr (unique_keep_order fst {} items)))"

definition index_page_url :: "ext \<Rightarrow> nat \<Rightarrow> string" where
  "index_page_url x page =
     (if page = 1 then NEWS_INDEX_URL
      else urljoin x NEWS_INDEX_URL (''p'' @ str_of_nat page @ ''/''))"

text \<open>
  The loop of \<^verbatim>\<open>collect_new_links_all\<close> over the remaining page numbers, with the items
  gathered so far. It stops early once the safety ceiling is reached.
\<close>

fun collect_pages :: "ext \<Rightarrow> nat list \<Rightarrow> (string \<times> string) list \<Rightarrow> error + (string \<times> string) list" where
  "collect_pages x [] all_items = Inr all_items"
| "collect_pages x (page # pages) all_items =
     (case parse_news_index_page x (index_page_url x page) of
        Inl e \<Rightarrow> Inl e
      | Inr items \<Rightarrow>
          (let all_items' = all_items @ items
           in if length all_items' \<ge> ARTICLES_PER_PAGE_HINT * PAGES_TO_SCAN then Inr all_items'
              else collect_pages x pages all_items'))"

definition collect_new_links_all :: "ext \<Rightarrow> error + (string \<times> string) list" where
  "collect_new_links_all x = collect_pages x [1 ..< PAGES_TO_SCAN + 1] []"

text \<open>
  What the page with number \<open>page\<close> gives to the collection: its items, none when its
  request fails. It serves to state what the collector returns.
\<close>

definition page_items :: "ext \<Rightarrow> nat \<Rightarrow> (string \<times> string) list" where
  "page_items x page =
     (case parse_news_index_page x (index_page_url x page) of
        Inl e \<Rightarrow> []
      | Inr items \<Rightarrow> items)"

text \<open>
  The article links of a document fetched as \<open>page_url\<close>, as the first loop of
  \<^verbatim>\<open>parse_news_index_page\<close> gathers them, before they are made unique; and those of the
  page with number \<open>page\<close>, none when its request fails.
\<close>

definition index_items :: "ext \<Rightarrow> string \<Rightarrow> soup \<Rightarrow> (string \<times> string) list" where
  "index_items x page_url doc =
     List.map_filter (index_item x page_url)
       (filter (\<lambda>e. el_name e = ''a'' \<and> attr_get e ''href'' \<noteq> None) doc)"

definition page_links :: "ext \<Rightarrow> nat \<Rightarrow> (string \<times> string) list" where
  "page_links x page =
     (case http_get x (index_page_url x page) of
        None \<Rightarrow> []
      | Some doc \<Rightarrow> index_items x (index_page_url x page) doc)"

subsection \<open>Sending\<close>

text \<open>
  \<^verbatim>\<open>tg_api_post\<close>: an exception of the request propagates, and a response that is not ok
  ends the program with \<^verbatim>\<open>SystemExit\<close>.
\<close>

definition tg_api_post :: "ext \<Rightarrow> tg_call \<Rightarrow> error + unit" where
  "tg_api_post x call =
     (case tg_post x call of
        Post_ok \<Rightarrow> Inr ()
      | Post_not_ok \<Rightarrow> Inl Telegram_api_error
      | Post_raised \<Rightarrow> Inl Telegram_request_failed)"

definition tg_send_photo :: "ext \<Rightarrow> string \<Rightarrow> string \<Rightarrow> string \<Rightarrow> tg_call" where
  "tg_send_photo x photo_url caption_html button_url =
     SendPhoto (env_channel x) photo_url caption_html button_url"

definition tg_send_message :: "ext \<Rightarrow> string \<Rightarrow> string \<Rightarrow> tg_call" where
  "tg_send_message x text_html button_url = SendMessage (env_channel x) text_html button_url"

subsection \<open>One run\<close>

text \<open>
  What a run does is recorded as it goes: each call of \<^verbatim>\<open>fetch_article_meta\<close>, each call
  of the formatter, each request sent to the messaging API with its result, and each call
  of \<^verbatim>\<open>mark_posted\<close>, all with the url of the candidate.
\<close>

datatype event =
    Fetch_meta string
  | Format_caption string
  | Send string tg_call post_result
  | Mark string string string

record run_state =
  store :: posted_table
  clock_reads :: nat
  posted_count :: nat
  trace :: "event list"

definition emit :: "event \<Rightarrow> run_state \<Rightarrow> run_state" where
  "emit e s = s\<lparr>trace := trace s @ [e]\<rparr>"

text \<open>A call of \<^verbatim>\<open>mark_posted\<close> within the run: it reads the clock once.\<close>

definition mark :: "ext \<Rightarrow> string \<Rightarrow> string \<Rightarrow> string \<Rightarrow> run_state \<Rightarrow> run_state" where
  "mark x u t g s =
     emit (Mark u t g)
       (s\<lparr>store := mark_posted (store s) u t g (clock x (clock_reads s)),
          clock_reads := Suc (clock_reads s)\<rparr>)"

text \<open>
  The body of the loop of \<^verbatim>\<open>run_once\<close> after the test of the cap. The first component of
  the result is the error that ends the run, if any.
\<close>

definition process_candidate ::
  "ext \<Rightarrow> int \<Rightarrow> string \<times> string \<Rightarrow> run_state \<Rightarrow> error option \<times> run_state" where
  "process_candidate x cutoff cand s =
     (let url = fst cand;
          title_guess = snd cand;
          tag = tag_from_article_url x url;
          s1 = emit (Fetch_meta url) s
      in case fetch_article_meta x url of
           Inl e \<Rightarrow> (None, mark x url (py_or title_guess url) tag s1)
         | Inr (pub_dt, img, title_real) \<Rightarrow>
             (case pub_dt of
                None \<Rightarrow> (None, mark x url (opt_or title_real (py_or title_guess url)) tag s1)
              | Some dt \<Rightarrow>
                  if dt < cutoff
                  then (None, mark x url (opt_or title_real (py_or title_guess url)) tag s1)
                  else
                    let title_to_use = opt_or title_real (py_or title_guess lit_news);
                        caption = format_caption_style2 x title_to_use tag (Some dt);
                        s2 = emit (Format_caption url) s1;
                        call =
                          (if truthy img then tg_send_photo x (the img) caption url
                           else tg_send_message x
                                  (caption @ [CHR 0x0A, CHR 0x0A] @ ''<a href='' @ [CHR 0x22]
                                   @ html_escape url @ [CHR 0x22] @ ''>'' @ lit_open @ ''</a>'')
                                  url);
                        s3 = emit (Send url call (tg_post x call)) s2
                    in case tg_api_post x call of
                         Inl e \<Rightarrow> (Some e, s3)
                       | Inr u \<Rightarrow>
                           (None, (mark x url title_to_use tag s3)
                                    \<lparr>posted_count := posted_count s3 + 1\<rparr>)))"

text \<open>The loop over \<^verbatim>\<open>candidates_ordered\<close>, leaving at the cap or at an error.\<close>

fun run_loop ::
  "ext \<Rightarrow> int \<Rightarrow> (string \<times> string) list \<Rightarrow> run_state \<Rightarrow> error option \<times> run_state" where
  "run_loop x cutoff [] s = (None, s)"
| "run_loop x cutoff (cand # cands) s =
     (if posted_count s \<ge> MAX_POSTS_PER_RUN then (None, s)
      else case process_candidate x cutoff cand s of
             (Some e, s') \<Rightarrow> (Some e, s')
           | (None, s') \<Rightarrow> run_loop x cutoff cands s')"

text \<open>
  \<^verbatim>\<open>run_once\<close>, from the state of the database file. The rows of the result are those of
  the table afterwards; a table that was never created has none.
\<close>

definition run_once :: "ext \<Rightarrow> posted_table option \<Rightarrow> error option \<times> run_state" where
  "run_once x file =
     (if \<not> truthy (env_bot_token x) \<or> \<not> truthy (env_channel x)
      then (Some Missing_config,
            \<lparr>store = init_db file, clock_reads = 0, posted_count = 0, trace = []\<rparr>)
      else
        let db = init_db file;
            now_utc = clock x 0;
            cutoff = now_utc - timedelta_hours WINDOW_HOURS;
            s0 = \<lparr>store = db, clock_reads = 1, posted_count = 0, trace = []\<rparr>
        in case collect_new_links_all x of
             Inl e \<Rightarrow> (Some e, s0)
           | Inr raw_candidates \<Rightarrow>
               if raw_candidates = [] then (None, s0)
               else
                 let candidates = filter (\<lambda>c. \<not> already_posted db (fst c)) raw_candidates
                 in if candidates = [] then (None, s0)
                    else run_loop x cutoff (rev candidates) s0)"

text \<open>Readings of a trace.\<close>

fun fetched :: "event list \<Rightarrow> string list" where
  "fetched [] = []"
| "fetched (Fetch_meta u # es) = u # fetched es"
| "fetched (e # es) = fetched es"

fun formatted :: "event list \<Rightarrow> string list" where
  "formatted [] = []"
| "formatted (Format_caption u # es) = u # formatted es"
| "formatted (e # es) = formatted es"

text \<open>The urls for which a request was sent to the messaging API, in order.\<close>

fun sent :: "event list \<Rightarrow> string list" where
  "sent [] = []"
| "sent (Send u c r # es) = u # sent es"
| "sent (e # es) = sent es"

text \<open>The urls whose request the messaging API accepted, in order.\<close>

fun published :: "event list \<Rightarrow> string list" where
  "published [] = []"
| "published (Send u c Post_ok # es) = u # published es"
| "published (e # es) = published es"

fun marked :: "event list \<Rightarrow> string list" where
  "marked [] = []"
| "marked (Mark u t g # es) = u # marked es"
| "marked (e # es) = marked es"

fun event_url :: "event \<Rightarrow> string" where
  "event_url (Fetch_meta u) = u"
| "event_url (Format_caption u) = u"
| "event_url (Send u c r) = u"
| "event_url (Mark u t g) = u"

text \<open>
  An article is eligible when its page can be fetched, yields a date, and the date is not
  before the cutoff: the three tests that the loop makes before it formats and sends.
\<close>

definition eligible :: "ext \<Rightarrow> int \<Rightarrow> string \<Rightarrow> bool" where
  "eligible x cutoff u =
     (case fetch_article_meta x u of
        Inl e \<Rightarrow> False
      | Inr (pub_dt, img, title_real) \<Rightarrow>
          (case pub_dt of None \<Rightarrow> False | Some dt \<Rightarrow> \<not> dt < cutoff))"

text \<open>The cutoff of a run: its first reading of the clock minus the window.\<close>

definition run_cutoff :: "ext \<Rightarrow> int" where
  "run_cutoff x = clock x 0 - timedelta_hours WINDOW_HOURS"

text \<open>The candidates that a run keeps of the collected ones, in the order it processes them.\<close>

definition candidates_ordered :: "posted_table \<Rightarrow> (string \<times> string) list \<Rightarrow> (string \<times> string) list" where
  "candidates_ordered db raw_candidates =
     rev (filter (\<lambda>c. \<not> already_posted db (fst c)) raw_candidates)"

text \<open>The error that \<^verbatim>\<open>tg_api_post\<close> leaves with for a result that is not ok.\<close>

definition post_error :: "post_result \<Rightarrow> error" where
  "post_error res = (if res = Post_not_ok then Telegram_api_error else Telegram_request_failed)"

text \<open>
  What the events \<open>es\<close> added by the loop, started in \<open>s\<close> on \<open>cands\<close> and ended in \<open>s'\<close>
  with \<open>r\<close>, have to do with the candidates, the store and the counter.
\<close>

definition loop_summary ::
  "ext \<Rightarrow> int \<Rightarrow> (string \<times> string) list \<Rightarrow> run_state \<Rightarrow> error option \<Rightarrow> run_state
   \<Rightarrow> event list \<Rightarrow> bool" where
  "loop_summary x cutoff cands s r s' es \<longleftrightarrow>
     trace s' = trace s @ es
     \<and> prefix (fetched es) (map fst cands)
     \<and> event_url ` set es \<subseteq> fst ` set cands
     \<and> set (sent es) = {u \<in> set (fetched es). eligible x cutoff u}
     \<and> formatted es = sent es
     \<and> (r = None \<longrightarrow> published es = sent es)
     \<and> subseq (published es) (fetched es)
     \<and> set (marked es) \<subseteq> set (fetched es)
     \<and> {u \<in> set (fetched es). \<not> eligible x cutoff u} \<subseteq> set (marked es)
     \<and> {u \<in> set (marked es). eligible x cutoff u} \<subseteq> set (published es)
     \<and> posted_count s' = posted_count s + length (published es)
     \<and> (posted_count s \<le> MAX_POSTS_PER_RUN \<longrightarrow> posted_count s' \<le> MAX_POSTS_PER_RUN)
     \<and> set (map row_url (store s')) = set (map row_url (store s)) \<union> set (marked es)
     \<and> (r \<noteq> None \<longrightarrow>
          (\<exists>es0 u call.
             es = es0 @ [Fetch_meta u, Format_caption u, Send u call (tg_post x call)]
             \<and> tg_post x call \<noteq> Post_ok
             \<and> r = Some (post_error (tg_post x call))
             \<and> fetched es = fetched es0 @ [u]
             \<and> marked es = marked es0
             \<and> set (marked es0) \<subseteq> set (fetched es0)))
     \<and> (\<forall>u call res. Send u call res \<in> set es \<longrightarrow> res \<noteq> Post_ok \<longrightarrow>
          r = Some (post_error res) \<and> es \<noteq> [] \<and> last es = Send u call res)"

subsection \<open>Sample worlds\<close>

text \<open>
  A small site to run the script on: an index page with links to three articles \<open>a\<close>,
  \<open>b\<close> and \<open>c\<close> (the first one linked twice, and one link that is no article), five
  further index pages without links, and the three articles, each carrying its date in a
  different place. The clock stands at 1000 hours after the epoch, and the three dates are
  40 hours before that. The library functions are simple stand-ins that are right on the
  strings of this site.
\<close>

definition anchor :: "string \<Rightarrow> string \<Rightarrow> element" where
  "anchor href txt = \<lparr>el_name = ''a'', el_attrs = [(''href'', href)], el_strings = [txt]\<rparr>"

definition meta_el :: "string \<Rightarrow> string \<Rightarrow> string \<Rightarrow> element" where
  "meta_el k v content =
     \<lparr>el_name = ''meta'', el_attrs = [(k, v), (''content'', content)], el_strings = []\<rparr>"

definition url_a :: string where
  "url_a = ''https://worldoftanks.eu/ru/news/updates/a/''"

definition url_b :: string where
  "url_b = ''https://worldoftanks.eu/ru/news/specials/b/''"

definition url_c :: string where
  "url_c = ''https://worldoftanks.eu/ru/news/general-news/c/''"

definition url_page2 :: string where
  "url_page2 = ''https://worldoftanks.eu/ru/news/p2/''"

definition sample_index :: soup where
  "sample_index =
     [anchor ''/ru/news/updates/a/'' ''Update A'',
      anchor ''/ru/news/updates/a/'' ''Read more'',
      anchor ''/ru/news/specials/b/'' ''Sale B'',
      anchor ''/ru/about/'' ''About'',
      anchor ''/ru/news/general-news/c/'' ''News C'']"

definition doc_a :: soup where
  "doc_a =
     [meta_el ''property'' ''article:published_time'' ''1970-02-10T00:00:00Z'',
      meta_el ''property'' ''og:image'' ''https://cdn.example/a.png'',
      meta_el ''property'' ''og:title'' ''Tanks <A> & more'']"

definition doc_b :: soup where
  "doc_b =
     [\<lparr>el_name = ''title'', el_attrs = [], el_strings = [''Sale B'']\<rparr>,
      \<lparr>el_name = ''time'', el_attrs = [(''datetime'', ''1970-02-10T00:00:00'')],
       el_strings = [''10 February'']\<rparr>]"

definition doc_c :: soup where
  "doc_c =
     [\<lparr>el_name = ''script'', el_attrs = [(''type'', ''application/ld+json'')],
       el_strings = [''jsonld of c'']\<rparr>]"

definition doc_c_old :: soup where
  "doc_c_old = [meta_el ''itemprop'' ''datePublished'' ''1970-01-01T00:00:00+00:00'']"

definition sample_site :: "(string \<times> soup) list" where
  "sample_site =
     [(''https://worldoftanks.eu/ru/news/'', sample_index),
      (''https://worldoftanks.eu/ru/news/p2/'', []),
      (''https://worldoftanks.eu/ru/news/p3/'', []),
      (''https://worldoftanks.eu/ru/news/p4/'', []),
      (''https://worldoftanks.eu/ru/news/p5/'', []),
      (''https://worldoftanks.eu/ru/news/p6/'', []),
      (url_a, doc_a),
      (url_b, doc_b),
      (url_c, doc_c)]"

definition sample_urljoin :: "string \<Rightarrow> string \<Rightarrow> string" where
  "sample_urljoin base href =
     (if href \<noteq> [] \<and> hd href = CHR ''/'' then ''https://worldoftanks.eu'' @ href
      else base @ href)"

definition sample_urlparse :: "string \<Rightarrow> parse_result" where
  "sample_urlparse u =
     (let rest = drop 23 u;
          no_mark = (\<lambda>c. c \<noteq> CHR ''?'' \<and> c \<noteq> CHR ''#'');
          after = dropWhile no_mark rest;
          q = (if after \<noteq> [] \<and> hd after = CHR ''?''
               then takeWhile (\<lambda>c. c \<noteq> CHR ''#'') (tl after) else []);
          f = drop 1 (dropWhile (\<lambda>c. c \<noteq> CHR ''#'') after)
      in \<lparr>scheme = ''https'', netloc = ''worldoftanks.eu'', path = takeWhile no_mark rest,
          params = [], query = q, fragment = f\<rparr>)"

definition sample_geturl :: "parse_result \<Rightarrow> string" where
  "sample_geturl p =
     scheme p @ ''://'' @ netloc p @ path p
     @ (if query p = [] then [] else ''?'' @ query p)
     @ (if fragment p = [] then [] else ''#'' @ fragment p)"

definition sample_fromisoformat :: "string \<Rightarrow> pydatetime option" where
  "sample_fromisoformat s =
     map_of
       [(''1970-02-10T00:00:00+00:00'', \<lparr>wall = 3456000000000, utcoffset = Some 0\<rparr>),
        (''1970-02-10T00:00:00'', \<lparr>wall = 3456000000000, utcoffset = None\<rparr>),
        (''1970-02-10T02:00:00+02:00'', \<lparr>wall = 3463200000000, utcoffset = Some 7200000000\<rparr>),
        (''1970-01-01T00:00:00+00:00'', \<lparr>wall = 0, utcoffset = Some 0\<rparr>)] s"

definition sample_json_loads :: "string \<Rightarrow> json option" where
  "sample_json_loads s =
     (if s = ''jsonld of c''
      then Some (JObj [(''@type'', JStr ''NewsArticle''),
                       (''datePublished'', JStr ''1970-02-10T02:00:00+02:00'')])
      else None)"

definition sample_world :: ext where
  "sample_world =
     \<lparr>env_bot_token = Some ''123:abc'',
      env_channel = Some ''@wot_news'',
      clock = (\<lambda>n. 3600000000000 + int n),
      http_get = map_of sample_site,
      tg_post = (\<lambda>c. Post_ok),
      urljoin = sample_urljoin,
      urlparse = sample_urlparse,
      geturl = sample_geturl,
      fromisoformat = sample_fromisoformat,
      json_loads = sample_json_loads,
      str_strip = (\<lambda>s. s),
      str_lower = (\<lambda>s. s),
      strftime_local = (\<lambda>t. ''10.02.1970 01:00'')\<rparr>"

text \<open>The same site with an old article \<open>c\<close>.\<close>

definition stale_world :: ext where
  "stale_world = sample_world\<lparr>http_get := map_of ((url_c, doc_c_old) # sample_site)\<rparr>"

text \<open>The same site with article \<open>a\<close> listed on the second index page too.\<close>

definition repeating_world :: ext where
  "repeating_world =
     sample_world\<lparr>http_get :=
       map_of ((url_page2, [anchor ''/ru/news/updates/a/'' ''Update A'']) # sample_site)\<rparr>"

text \<open>The same site while the request for the second index page fails.\<close>

definition failing_world :: ext where
  "failing_world =
     sample_world\<lparr>http_get := (\<lambda>u. if u = url_page2 then None else map_of sample_site u)\<rparr>"

text \<open>
  The site with the old article \<open>c\<close> while the messaging API answers every request with an
  error status, and the request that a run sends for article \<open>b\<close> there.
\<close>

definition halting_world :: ext where
  "halting_world = stale_world\<lparr>tg_post := (\<lambda>c. Post_not_ok)\<rparr>"

definition call_b :: tg_call where
  "call_b =
     tg_send_message sample_world
       (format_caption_style2 sample_world ''Sale B'' ''specials'' (Some 3456000000000)
        @ [CHR 0x0A, CHR 0x0A] @ ''<a href='' @ [CHR 0x22] @ html_escape url_b @ [CHR 0x22]
        @ ''>'' @ lit_open @ ''</a>'')
       url_b"

section \<open>Properties\<close>

subsection \<open>The table of posted articles\<close>

lemma already_posted_iff: "already_posted db u \<longleftrightarrow> u \<in> set (map row_url db)"
  by (induction db) (auto simp: already_posted_def)

lemma list_ex_row_url: "list_ex (\<lambda>r. row_url r = u) db \<longleftrightarrow> u \<in> set (map row_url db)"
  by (induction db) auto

lemma mark_posted_present: "already_posted db u \<Longrightarrow> mark_posted db u t g now = db"
  by (simp add: mark_posted_def already_posted_iff list_ex_row_url)

lemma mark_posted_absent:
  "\<not> already_posted db u \<Longrightarrow>
   mark_posted db u t g now = db @ [\<lparr>row_url = u, row_title = t, row_tag = g, row_posted_at = now\<rparr>]"
  by (simp add: mark_posted_def already_posted_iff list_ex_row_url)

lemma mark_posted_urls:
  "set (map row_url (mark_posted db u t g now)) = insert u (set (map row_url db))"
  by (auto simp: mark_posted_def list_ex_row_url)

lemma mark_posted_key: "primary_key_ok db \<Longrightarrow> primary_key_ok (mark_posted db u t g now)"
  by (auto simp: mark_posted_def primary_key_ok_def list_ex_row_url)

lemma rows_for_length: "primary_key_ok db \<Longrightarrow> length (rows_for db u) \<le> 1"
  unfolding primary_key_ok_def rows_for_def
proof (induction db)
  case Nil
  then show ?case by simp
next
  case (Cons r db)
  have "row_url r \<notin> set (map row_url db)" using Cons.prems by simp
  then have "row_url r = u \<Longrightarrow> filter (\<lambda>r. row_url r = u) db = []"
    by (auto simp: filter_empty_conv image_iff)
  then show ?case using Cons by auto
qed

text \<open>
  C7. The table never holds two rows for one url: a fresh table is empty, an existing one
  is kept by \<open>init_db\<close>, and \<open>mark_posted\<close> preserves the primary key, so every url
  has at most one row afterwards. Marking a url that is present returns the very same
  table (its title, tag and posted_at included) and cannot fail; marking an absent url
  appends exactly one row.
\<close>

theorem C7_mark_posted_idempotent:
  "primary_key_ok (init_db None)
   \<and> init_db (Some db) = db
   \<and> (primary_key_ok db \<longrightarrow>
        primary_key_ok (mark_posted db u t g now)
        \<and> length (rows_for (mark_posted db u t g now) v) \<le> 1)
   \<and> (already_posted db u \<longrightarrow>
        mark_posted db u t g now = db
        \<and> rows_for (mark_posted db u t g now) u = rows_for db u)
   \<and> (\<not> already_posted db u \<longrightarrow>
        rows_for (mark_posted db u t g now) u
          = [\<lparr>row_url = u, row_title = t, row_tag = g, row_posted_at = now\<rparr>])
   \<and> mark_posted (mark_posted db u t g now) u t' g' now' = mark_posted db u t g now"
proof -
  have a: "primary_key_ok (init_db None)"
    by (simp add: init_db_def primary_key_ok_def)
  have b: "init_db (Some db) = db"
    by (simp add: init_db_def)
  have c: "primary_key_ok db \<longrightarrow>
        primary_key_ok (mark_posted db u t g now)
        \<and> length (rows_for (mark_posted db u t g now) v) \<le> 1"
    using mark_posted_key rows_for_length by blast
  have d: "already_posted db u \<longrightarrow>
        mark_posted db u t g now = db
        \<and> rows_for (mark_posted db u t g now) u = rows_for db u"
    by (simp add: mark_posted_present)
  have e: "\<not> already_posted db u \<longrightarrow>
        rows_for (mark_posted db u t g now) u
          = [\<lparr>row_url = u, row_title = t, row_tag = g, row_posted_at = now\<rparr>]"
    by (auto simp: mark_posted_absent rows_for_def already_posted_iff filter_empty_conv)
  have "already_posted (mark_posted db u t g now) u"
    by (simp add: already_posted_iff mark_posted_urls del: set_map)
  then have f: "mark_posted (mark_posted db u t g now) u t' g' now' = mark_posted db u t g now"
    by (rule mark_posted_present)
  from a b c d e f show ?thesis by blast
qed

theorem C7_mark_posted_idempotent_witness:
  "primary_key_ok [\<lparr>row_url = ''a'', row_title = ''T'', row_tag = ''news'', row_posted_at = 5\<rparr>]
   \<and> already_posted [\<lparr>row_url = ''a'', row_title = ''T'', row_tag = ''news'', row_posted_at = 5\<rparr>] ''a''
   \<and> \<not> already_posted [\<lparr>row_url = ''a'', row_title = ''T'', row_tag = ''news'', row_posted_at = 5\<rparr>] ''b''
   \<and> mark_posted [\<lparr>row_url = ''a'', row_title = ''T'', row_tag = ''news'', row_posted_at = 5\<rparr>]
        ''a'' ''other'' ''updates'' 9
      = [\<lparr>row_url = ''a'', row_title = ''T'', row_tag = ''news'', row_posted_at = 5\<rparr>]
   \<and> rows_for (mark_posted [\<lparr>row_url = ''a'', row_title = ''T'', row_tag = ''news'', row_posted_at = 5\<rparr>]
        ''b'' ''B'' ''updates'' 9) ''b''
      = [\<lparr>row_url = ''b'', row_title = ''B'', row_tag = ''updates'', row_posted_at = 9\<rparr>]"
proof -
  let ?db = "[\<lparr>row_url = ''a'', row_title = ''T'', row_tag = ''news'', row_posted_at = 5::int\<rparr>]"
  have k: "primary_key_ok ?db" by (simp add: primary_key_ok_def)
  have p: "already_posted ?db ''a''" by (simp add: already_posted_def)
  have q: "\<not> already_posted ?db ''b''" by (simp add: already_posted_def)
  from C7_mark_posted_idempotent [of ?db "''a''" "''other''" "''updates''" 9] p
  have m: "mark_posted ?db ''a'' ''other'' ''updates'' 9 = ?db" by blast
  from C7_mark_posted_idempotent [of ?db "''b''" "''B''" "''updates''" 9] q
  have n: "rows_for (mark_posted ?db ''b'' ''B'' ''updates'' 9) ''b''
      = [\<lparr>row_url = ''b'', row_title = ''B'', row_tag = ''updates'', row_posted_at = 9\<rparr>]" by blast
  from k p q m n show ?thesis by blast
qed

subsection \<open>Escaping and the caption\<close>

lemma str_replace1_append:
  "str_replace1 c r (a @ b) = str_replace1 c r a @ str_replace1 c r b"
  by (simp add: str_replace1_def)

lemma html_escape_Nil: "html_escape [] = []"
  by (simp add: html_escape_def str_replace1_def)

lemma html_escape_append: "html_escape (a @ b) = html_escape a @ html_escape b"
  by (simp add: html_escape_def str_replace1_append)

lemma html_escape_single: "html_escape [c] = escape_char c"
  by (simp add: html_escape_def str_replace1_def escape_char_def)

lemma html_escape_chars: "html_escape s = concat (map escape_char s)"
proof (induction s)
  case Nil
  show ?case by (simp add: html_escape_Nil)
next
  case (Cons c s)
  have "html_escape (c # s) = html_escape ([c] @ s)" by simp
  also have "\<dots> = escape_char c @ html_escape s"
    by (simp only: html_escape_append html_escape_single)
  finally show ?case using Cons.IH by simp
qed

lemma escape_char_safe:
  "CHR ''<'' \<notin> set (escape_char c)" "CHR ''>'' \<notin> set (escape_char c)"
  "CHR 0x22 \<notin> set (escape_char c)"
  by (auto simp: escape_char_def)

lemma html_escape_safe:
  "CHR ''<'' \<notin> set (html_escape s)" "CHR ''>'' \<notin> set (html_escape s)"
  "CHR 0x22 \<notin> set (html_escape s)"
  by (simp_all add: html_escape_chars escape_char_safe)

text \<open>
  C10. In the caption of a non-empty title, the title stands between the bold marks of
  the second line as \<open>html_escape title\<close>, which replaces every \<open><\<close>, \<open>>\<close>, \<open>&\<close> and
  double quote of the title by its entity and leaves no raw \<open><\<close>, \<open>>\<close> or double
  quote. The date line and the section line that follow are built from the date and the
  tag alone: the title does not occur in them.
\<close>

theorem C10_title_escaped:
  assumes "title \<noteq> []"
  shows "html_escape title = concat (map escape_char title)
   \<and> escape_char (CHR ''<'') = ''&lt;''
   \<and> escape_char (CHR ''>'') = ''&gt;''
   \<and> escape_char (CHR ''&'') = ''&amp;''
   \<and> escape_char (CHR 0x22) = ''&quot;''
   \<and> CHR ''<'' \<notin> set (html_escape title)
   \<and> CHR ''>'' \<notin> set (html_escape title)
   \<and> CHR 0x22 \<notin> set (html_escape title)
   \<and> format_caption_style2 x title tag dt =
       lit_header
       @ tag_to_icon tag @ '' <b>'' @ html_escape title @ ''</b>'' @ [CHR 0x0A]
       @ lit_date_prefix @ html_escape (format_dt x dt) @ ''</b>'' @ [CHR 0x0A]
       @ lit_section_prefix @ html_escape (tag_to_label tag) @ ''</b>'' @ [CHR 0x0A]
       @ lit_hash_prefix @ html_escape tag
       @ (if join '' '' (extra_hashtags_by_title x title) = [] then []
          else ''  '' @ html_escape (join '' '' (extra_hashtags_by_title x title)))"
proof -
  have e: "escape_char (CHR ''<'') = ''&lt;''" "escape_char (CHR ''>'') = ''&gt;''"
    "escape_char (CHR ''&'') = ''&amp;''" "escape_char (CHR 0x22) = ''&quot;''"
    by (simp_all add: escape_char_def)
  have f: "format_caption_style2 x title tag dt =
       lit_header
       @ tag_to_icon tag @ '' <b>'' @ html_escape title @ ''</b>'' @ [CHR 0x0A]
       @ lit_date_prefix @ html_escape (format_dt x dt) @ ''</b>'' @ [CHR 0x0A]
       @ lit_section_prefix @ html_escape (tag_to_label tag) @ ''</b>'' @ [CHR 0x0A]
       @ lit_hash_prefix @ html_escape tag
       @ (if join '' '' (extra_hashtags_by_title x title) = [] then []
          else ''  '' @ html_escape (join '' '' (extra_hashtags_by_title x title)))"
    using assms by (simp add: format_caption_style2_def Let_def py_or_def)
  from e f html_escape_chars [of title] html_escape_safe [of title] show ?thesis
    by blast
qed

theorem C10_title_escaped_witness:
  "''<a href='' @ [CHR 0x22] @ ''x'' @ [CHR 0x22] @ ''>Tom & Jerry</a>'' \<noteq> []
   \<and> html_escape (''<a href='' @ [CHR 0x22] @ ''x'' @ [CHR 0x22] @ ''>Tom & Jerry</a>'')
       = ''&lt;a href=&quot;x&quot;&gt;Tom &amp; Jerry&lt;/a&gt;''
   \<and> CHR ''<'' \<notin> set (html_escape (''<a href='' @ [CHR 0x22] @ ''x'' @ [CHR 0x22] @ ''>Tom & Jerry</a>''))"
proof -
  let ?t = "''<a href='' @ [CHR 0x22] @ ''x'' @ [CHR 0x22] @ ''>Tom & Jerry</a>''"
  have n: "?t \<noteq> []" by simp
  have "html_escape ?t = concat (map escape_char ?t)"
    and s: "CHR ''<'' \<notin> set (html_escape ?t)"
    using C10_title_escaped [OF n] by blast+
  then have "html_escape ?t = ''&lt;a href=&quot;x&quot;&gt;Tom &amp; Jerry&lt;/a&gt;''"
    by (simp add: escape_char_def)
  with n s show ?thesis by blast
qed

subsection \<open>The publication date\<close>










subsection \<open>Reading traces\<close>

lemma fetched_append: "fetched (a @ b) = fetched a @ fetched b"
  by (induction a rule: fetched.induct) simp_all

lemma formatted_append: "formatted (a @ b) = formatted a @ formatted b"
  by (induction a rule: formatted.induct) simp_all

lemma sent_append: "sent (a @ b) = sent a @ sent b"
  by (induction a rule: sent.induct) simp_all

lemma published_append: "published (a @ b) = published a @ published b"
  by (induction a rule: published.induct) simp_all

lemma marked_append: "marked (a @ b) = marked a @ marked b"
  by (induction a rule: marked.induct) simp_all

lemma fetched_event_url: "set (fetched es) \<subseteq> event_url ` set es"
  by (induction es rule: fetched.induct) auto

lemma formatted_event_url: "set (formatted es) \<subseteq> event_url ` set es"
  by (induction es rule: formatted.induct) auto

lemma sent_event_url: "set (sent es) \<subseteq> event_url ` set es"
  by (induction es rule: sent.induct) auto

lemma published_sent: "set (published es) \<subseteq> set (sent es)"
  by (induction es rule: published.induct) auto

subsection \<open>One candidate\<close>

lemma mark_fields:
  "trace (mark x u t g s) = trace s @ [Mark u t g]"
  "store (mark x u t g s) = mark_posted (store s) u t g (clock x (clock_reads s))"
  "posted_count (mark x u t g s) = posted_count s"
  by (simp_all add: mark_def emit_def)

lemma emit_fields:
  "trace (emit e s) = trace s @ [e]"
  "store (emit e s) = store s"
  "posted_count (emit e s) = posted_count s"
  "clock_reads (emit e s) = clock_reads s"
  by (simp_all add: emit_def)

text \<open>The three ways in which the body of the loop ends.\<close>

lemma process_candidate_cases:
  assumes "process_candidate x cutoff cand s = (r, s')"
  shows "(\<not> eligible x cutoff (fst cand) \<and> r = None \<and> posted_count s' = posted_count s
          \<and> (\<exists>t g. trace s' = trace s @ [Fetch_meta (fst cand), Mark (fst cand) t g]
                \<and> store s' = mark_posted (store s) (fst cand) t g (clock x (clock_reads s))))
       \<or> (eligible x cutoff (fst cand) \<and> r = None \<and> posted_count s' = posted_count s + 1
          \<and> (\<exists>call t g. tg_post x call = Post_ok
                \<and> trace s' = trace s @ [Fetch_meta (fst cand), Format_caption (fst cand),
                                          Send (fst cand) call Post_ok, Mark (fst cand) t g]
                \<and> store s' = mark_posted (store s) (fst cand) t g (clock x (clock_reads s))))
       \<or> (eligible x cutoff (fst cand) \<and> posted_count s' = posted_count s \<and> store s' = store s
          \<and> (\<exists>call. tg_post x call \<noteq> Post_ok \<and> r = Some (post_error (tg_post x call))
                \<and> trace s' = trace s @ [Fetch_meta (fst cand), Format_caption (fst cand),
                                          Send (fst cand) call (tg_post x call)]))"
proof (cases "fetch_article_meta x (fst cand)")
  case (Inl e)
  then show ?thesis
    using assms by (auto simp: process_candidate_def eligible_def Let_def mark_fields emit_fields)
next
  case (Inr m)
  obtain pub_dt img title_real where m: "m = (pub_dt, img, title_real)"
    by (cases m) auto
  show ?thesis
  proof (cases pub_dt)
    case None
    then show ?thesis
      using assms Inr m
      by (auto simp: process_candidate_def eligible_def Let_def mark_fields emit_fields)
  next
    case (Some dt)
    show ?thesis
    proof (cases "dt < cutoff")
      case True
      then show ?thesis
        using assms Inr m Some
        by (auto simp: process_candidate_def eligible_def Let_def mark_fields emit_fields)
    next
      case False
      then have el: "eligible x cutoff (fst cand)"
        using Inr m Some by (simp add: eligible_def)
      define title_to_use where "title_to_use = opt_or title_real (py_or (snd cand) lit_news)"
      define caption where
        "caption = format_caption_style2 x title_to_use (tag_from_article_url x (fst cand)) (Some dt)"
      define call where
        "call = (if truthy img then tg_send_photo x (the img) caption (fst cand)
                 else tg_send_message x
                        (caption @ [CHR 0x0A, CHR 0x0A] @ ''<a href='' @ [CHR 0x22]
                         @ html_escape (fst cand) @ [CHR 0x22] @ ''>'' @ lit_open @ ''</a>'')
                        (fst cand))"
      define s3 where
        "s3 = emit (Send (fst cand) call (tg_post x call))
                (emit (Format_caption (fst cand)) (emit (Fetch_meta (fst cand)) s))"
      have pc: "process_candidate x cutoff cand s =
          (case tg_api_post x call of
             Inl e \<Rightarrow> (Some e, s3)
           | Inr u \<Rightarrow>
               (None, (mark x (fst cand) title_to_use (tag_from_article_url x (fst cand)) s3)
                        \<lparr>posted_count := posted_count s3 + 1\<rparr>))"
        using Inr m Some False
        unfolding s3_def call_def caption_def title_to_use_def
        by (simp add: process_candidate_def Let_def)
      have tr3: "trace s3 = trace s @ [Fetch_meta (fst cand), Format_caption (fst cand),
                                        Send (fst cand) call (tg_post x call)]"
        and st3: "store s3 = store s" and pc3: "posted_count s3 = posted_count s"
        and cr3: "clock_reads s3 = clock_reads s"
        by (simp_all add: s3_def emit_fields)
      show ?thesis
      proof (cases "tg_post x call = Post_ok")
        case True
        then have "r = None"
          and s': "s' = (mark x (fst cand) title_to_use (tag_from_article_url x (fst cand)) s3)
                          \<lparr>posted_count := posted_count s3 + 1\<rparr>"
          using assms pc by (simp_all add: tg_api_post_def)
        moreover have "posted_count s' = posted_count s + 1"
          by (simp add: s' pc3)
        moreover have "trace s' = trace s @ [Fetch_meta (fst cand), Format_caption (fst cand),
                                          Send (fst cand) call Post_ok,
                                          Mark (fst cand) title_to_use (tag_from_article_url x (fst cand))]"
          using True by (simp add: s' mark_fields tr3)
        moreover have "store s' = mark_posted (store s) (fst cand) title_to_use
                          (tag_from_article_url x (fst cand)) (clock x (clock_reads s))"
          by (simp add: s' mark_fields st3 cr3)
        ultimately show ?thesis using el True by blast
      next
        case False
        then have "r = Some (post_error (tg_post x call))" and s': "s' = s3"
          using assms pc
          by (cases "tg_post x call"; simp add: tg_api_post_def post_error_def)+
        then show ?thesis using el False tr3 st3 pc3 by blast
      qed
    qed
  qed
qed

lemma published_Send:
  "published (Send u c res # es) = (if res = Post_ok then u # published es else published es)"
  by (cases res) simp_all

lemma mark_posted_url_set:
  "set (map row_url (mark_posted db u t g now)) = insert u (set (map row_url db))"
  by (rule mark_posted_urls)

text \<open>The summary of a loop over the single candidate that the body has processed.\<close>

lemma process_candidate_summary:
  assumes pc: "process_candidate x cutoff cand s = (r, s')"
    and cap: "posted_count s < MAX_POSTS_PER_RUN"
  shows "\<exists>es. loop_summary x cutoff [cand] s r s' es \<and> fetched es = [fst cand]"
proof -
  let ?u = "fst cand"
  from process_candidate_cases [OF pc]
  consider
    (skip) t g where "\<not> eligible x cutoff ?u" "r = None" "posted_count s' = posted_count s"
      "trace s' = trace s @ [Fetch_meta ?u, Mark ?u t g]"
      "store s' = mark_posted (store s) ?u t g (clock x (clock_reads s))"
  | (post) call t g where "eligible x cutoff ?u" "r = None" "posted_count s' = posted_count s + 1"
      "tg_post x call = Post_ok"
      "trace s' = trace s @ [Fetch_meta ?u, Format_caption ?u, Send ?u call Post_ok, Mark ?u t g]"
      "store s' = mark_posted (store s) ?u t g (clock x (clock_reads s))"
  | (abort) call where "eligible x cutoff ?u" "posted_count s' = posted_count s" "store s' = store s"
      "tg_post x call \<noteq> Post_ok" "r = Some (post_error (tg_post x call))"
      "trace s' = trace s @ [Fetch_meta ?u, Format_caption ?u, Send ?u call (tg_post x call)]"
    by blast
  then show ?thesis
  proof cases
    case skip
    let ?es = "[Fetch_meta ?u, Mark ?u t g]"
    have "loop_summary x cutoff [cand] s r s' ?es"
      unfolding loop_summary_def using skip cap
      by (auto simp add: mark_posted_url_set simp del: set_map)
    then show ?thesis by (intro exI [of _ ?es]) simp
  next
    case post
    let ?es = "[Fetch_meta ?u, Format_caption ?u, Send ?u call Post_ok, Mark ?u t g]"
    have "loop_summary x cutoff [cand] s r s' ?es"
      unfolding loop_summary_def using post cap
      by (auto simp add: mark_posted_url_set simp del: set_map)
    then show ?thesis by (intro exI [of _ ?es]) simp
  next
    case abort
    let ?es = "[Fetch_meta ?u, Format_caption ?u, Send ?u call (tg_post x call)]"
    have "\<exists>es0 u' call'.
             ?es = es0 @ [Fetch_meta u', Format_caption u', Send u' call' (tg_post x call')]
             \<and> tg_post x call' \<noteq> Post_ok
             \<and> r = Some (post_error (tg_post x call'))
             \<and> fetched ?es = fetched es0 @ [u']
             \<and> marked ?es = marked es0
             \<and> set (marked es0) \<subseteq> set (fetched es0)"
      using abort by (intro exI [of _ "[]"] exI [of _ ?u] exI [of _ call]) simp
    then have "loop_summary x cutoff [cand] s r s' ?es"
      unfolding loop_summary_def using abort cap
      by (auto simp add: published_Send simp del: set_map)
    then show ?thesis by (intro exI [of _ ?es]) simp
  qed
qed

subsection \<open>The loop\<close>

lemma loop_summary_stop: "loop_summary x cutoff cands s None s []"
  by (simp add: loop_summary_def)

lemma loop_summary_single:
  assumes "loop_summary x cutoff [cand] s r s' es"
  shows "loop_summary x cutoff (cand # cands) s r s' es"
proof -
  note A = assms [unfolded loop_summary_def]
  have p: "prefix (fetched es) (map fst (cand # cands))"
  proof -
    from A have "prefix (fetched es) ([fst cand] @ [])" by simp
    then have "prefix (fetched es) ([fst cand] @ map fst cands)"
      by (simp only: append_Nil2 prefix_prefix)
    then show ?thesis by simp
  qed
  have i: "event_url ` set es \<subseteq> fst ` set (cand # cands)"
    using A by auto
  show ?thesis
    unfolding loop_summary_def using A p i by blast
qed

lemma loop_summary_compose:
  assumes "loop_summary x cutoff [cand] s None s1 es1"
    and f1: "fetched es1 = [fst cand]"
    and "loop_summary x cutoff cands s1 r s' es2"
  shows "loop_summary x cutoff (cand # cands) s r s' (es1 @ es2)"
proof -
  note A = assms(1) [unfolded loop_summary_def]
  note B = assms(3) [unfolded loop_summary_def]
  have c1: "trace s' = trace s @ es1 @ es2"
    using A B by simp
  have c2: "prefix (fetched (es1 @ es2)) (map fst (cand # cands))"
    using B f1 by (simp add: fetched_append)
  have c3: "event_url ` set (es1 @ es2) \<subseteq> fst ` set (cand # cands)"
    using A B by auto
  have c4: "set (sent (es1 @ es2)) = {u \<in> set (fetched (es1 @ es2)). eligible x cutoff u}"
  proof -
    from A have "set (sent es1) = {u \<in> set (fetched es1). eligible x cutoff u}" by blast
    moreover from B have "set (sent es2) = {u \<in> set (fetched es2). eligible x cutoff u}" by blast
    ultimately show ?thesis by (auto simp: sent_append fetched_append)
  qed
  have c5: "formatted (es1 @ es2) = sent (es1 @ es2)"
    using A B by (simp add: formatted_append sent_append)
  have c6: "r = None \<longrightarrow> published (es1 @ es2) = sent (es1 @ es2)"
    using A B by (simp add: published_append sent_append)
  have c7: "subseq (published (es1 @ es2)) (fetched (es1 @ es2))"
  proof -
    from A have "subseq (published es1) (fetched es1)" by blast
    moreover from B have "subseq (published es2) (fetched es2)" by blast
    ultimately show ?thesis
      unfolding published_append fetched_append by (rule list_emb_append_mono)
  qed
  have c8: "set (marked (es1 @ es2)) \<subseteq> set (fetched (es1 @ es2))"
  proof -
    from A have "set (marked es1) \<subseteq> set (fetched es1)" by blast
    moreover from B have "set (marked es2) \<subseteq> set (fetched es2)" by blast
    ultimately show ?thesis by (auto simp: marked_append fetched_append)
  qed
  have c9: "{u \<in> set (fetched (es1 @ es2)). \<not> eligible x cutoff u} \<subseteq> set (marked (es1 @ es2))"
  proof -
    from A have "{u \<in> set (fetched es1). \<not> eligible x cutoff u} \<subseteq> set (marked es1)" by blast
    moreover from B have "{u \<in> set (fetched es2). \<not> eligible x cutoff u} \<subseteq> set (marked es2)"
      by blast
    ultimately show ?thesis by (auto simp: marked_append fetched_append)
  qed
  have c10: "{u \<in> set (marked (es1 @ es2)). eligible x cutoff u} \<subseteq> set (published (es1 @ es2))"
  proof -
    from A have "{u \<in> set (marked es1). eligible x cutoff u} \<subseteq> set (published es1)" by blast
    moreover from B have "{u \<in> set (marked es2). eligible x cutoff u} \<subseteq> set (published es2)"
      by blast
    ultimately show ?thesis by (auto simp: marked_append published_append)
  qed
  have c11: "posted_count s' = posted_count s + length (published (es1 @ es2))"
    using A B by (simp add: published_append)
  have c12: "posted_count s \<le> MAX_POSTS_PER_RUN \<longrightarrow> posted_count s' \<le> MAX_POSTS_PER_RUN"
    using A B by blast
  have c13: "set (map row_url (store s')) = set (map row_url (store s)) \<union> set (marked (es1 @ es2))"
  proof -
    from A have "set (map row_url (store s1)) = set (map row_url (store s)) \<union> set (marked es1)"
      by blast
    moreover from B have "set (map row_url (store s')) = set (map row_url (store s1)) \<union> set (marked es2)"
      by blast
    ultimately show ?thesis by (auto simp: marked_append)
  qed
  have c14: "r \<noteq> None \<longrightarrow>
          (\<exists>es0 u call.
             es1 @ es2 = es0 @ [Fetch_meta u, Format_caption u, Send u call (tg_post x call)]
             \<and> tg_post x call \<noteq> Post_ok
             \<and> r = Some (post_error (tg_post x call))
             \<and> fetched (es1 @ es2) = fetched es0 @ [u]
             \<and> marked (es1 @ es2) = marked es0
             \<and> set (marked es0) \<subseteq> set (fetched es0))"
  proof
    assume "r \<noteq> None"
    with B obtain es0 u call where
      e: "es2 = es0 @ [Fetch_meta u, Format_caption u, Send u call (tg_post x call)]"
      and o: "tg_post x call \<noteq> Post_ok" "r = Some (post_error (tg_post x call))"
      and f: "fetched es2 = fetched es0 @ [u]" and m: "marked es2 = marked es0"
      and mf: "set (marked es0) \<subseteq> set (fetched es0)"
      by blast
    from A have "set (marked es1) \<subseteq> set (fetched es1)" by blast
    with mf have mf': "set (marked (es1 @ es0)) \<subseteq> set (fetched (es1 @ es0))"
      by (auto simp: marked_append fetched_append)
    have "es1 @ es2 = (es1 @ es0) @ [Fetch_meta u, Format_caption u, Send u call (tg_post x call)]"
      using e by simp
    moreover have "fetched (es1 @ es2) = fetched (es1 @ es0) @ [u]"
      using f by (simp add: fetched_append)
    moreover have "marked (es1 @ es2) = marked (es1 @ es0)"
      using m by (simp add: marked_append)
    ultimately show "\<exists>es0 u call.
             es1 @ es2 = es0 @ [Fetch_meta u, Format_caption u, Send u call (tg_post x call)]
             \<and> tg_post x call \<noteq> Post_ok
             \<and> r = Some (post_error (tg_post x call))
             \<and> fetched (es1 @ es2) = fetched es0 @ [u]
             \<and> marked (es1 @ es2) = marked es0
             \<and> set (marked es0) \<subseteq> set (fetched es0)"
      using o mf' by blast
  qed
  have c15: "\<forall>u call res. Send u call res \<in> set (es1 @ es2) \<longrightarrow> res \<noteq> Post_ok \<longrightarrow>
          r = Some (post_error res) \<and> es1 @ es2 \<noteq> [] \<and> last (es1 @ es2) = Send u call res"
  proof (intro allI impI)
    fix u call res
    assume i: "Send u call res \<in> set (es1 @ es2)" and n: "res \<noteq> Post_ok"
    from A have a: "\<forall>u call res. Send u call res \<in> set es1 \<longrightarrow> res \<noteq> Post_ok \<longrightarrow>
          None = Some (post_error res) \<and> es1 \<noteq> [] \<and> last es1 = Send u call res" by blast
    from B have b: "\<forall>u call res. Send u call res \<in> set es2 \<longrightarrow> res \<noteq> Post_ok \<longrightarrow>
          r = Some (post_error res) \<and> es2 \<noteq> [] \<and> last es2 = Send u call res" by blast
    from a n have "Send u call res \<notin> set es1" by blast
    with i have "Send u call res \<in> set es2" by simp
    with b n have "r = Some (post_error res)" "es2 \<noteq> []" "last es2 = Send u call res"
      by blast+
    then show "r = Some (post_error res) \<and> es1 @ es2 \<noteq> [] \<and> last (es1 @ es2) = Send u call res"
      by simp
  qed
  show ?thesis
    unfolding loop_summary_def
    using c1 c2 c3 c4 c5 c6 c7 c8 c9 c10 c11 c12 c13 c14 c15 by blast
qed

lemma run_loop_summary:
  "run_loop x cutoff cands s = (r, s') \<Longrightarrow> \<exists>es. loop_summary x cutoff cands s r s' es"
proof (induction cands arbitrary: s)
  case Nil
  then have "r = None" "s' = s" by simp_all
  then show ?case using loop_summary_stop by blast
next
  case (Cons cand cands)
  show ?case
  proof (cases "posted_count s \<ge> MAX_POSTS_PER_RUN")
    case True
    then have "r = None" "s' = s" using Cons.prems by simp_all
    then show ?thesis using loop_summary_stop by blast
  next
    case False
    then have cap: "posted_count s < MAX_POSTS_PER_RUN" by simp
    obtain r1 s1 where pc: "process_candidate x cutoff cand s = (r1, s1)"
      by (cases "process_candidate x cutoff cand s") auto
    from process_candidate_summary [OF pc cap] obtain es1 where
      s1: "loop_summary x cutoff [cand] s r1 s1 es1" and f1: "fetched es1 = [fst cand]"
      by blast
    show ?thesis
    proof (cases r1)
      case None
      then have "run_loop x cutoff cands s1 = (r, s')"
        using Cons.prems False pc by simp
      from Cons.IH [OF this] obtain es2 where "loop_summary x cutoff cands s1 r s' es2" ..
      from loop_summary_compose [OF s1 [unfolded None] f1 this] show ?thesis ..
    next
      case (Some e)
      then have "r = r1" "s' = s1"
        using Cons.prems False pc by simp_all
      then show ?thesis using loop_summary_single [OF s1] by blast
    qed
  qed
qed

text \<open>The parts of a summary, one by one.\<close>

lemma loop_summaryD:
  assumes "loop_summary x cutoff cands s r s' es"
  shows "trace s' = trace s @ es"
    and "prefix (fetched es) (map fst cands)"
    and "event_url ` set es \<subseteq> fst ` set cands"
    and "set (sent es) = {u \<in> set (fetched es). eligible x cutoff u}"
    and "formatted es = sent es"
    and "r = None \<Longrightarrow> published es = sent es"
    and "subseq (published es) (fetched es)"
    and "set (marked es) \<subseteq> set (fetched es)"
    and "{u \<in> set (fetched es). \<not> eligible x cutoff u} \<subseteq> set (marked es)"
    and "{u \<in> set (marked es). eligible x cutoff u} \<subseteq> set (published es)"
    and "posted_count s' = posted_count s + length (published es)"
    and "posted_count s \<le> MAX_POSTS_PER_RUN \<Longrightarrow> posted_count s' \<le> MAX_POSTS_PER_RUN"
    and "set (map row_url (store s')) = set (map row_url (store s)) \<union> set (marked es)"
  using assms unfolding loop_summary_def by blast+

lemma loop_summary_abort:
  assumes "loop_summary x cutoff cands s r s' es" and "r \<noteq> None"
  shows "\<exists>es0 u call.
           es = es0 @ [Fetch_meta u, Format_caption u, Send u call (tg_post x call)]
           \<and> tg_post x call \<noteq> Post_ok
           \<and> r = Some (post_error (tg_post x call))
           \<and> fetched es = fetched es0 @ [u]
           \<and> marked es = marked es0
           \<and> set (marked es0) \<subseteq> set (fetched es0)"
  using assms unfolding loop_summary_def by blast

lemma loop_summary_refused:
  assumes "loop_summary x cutoff cands s r s' es"
    and "Send u call res \<in> set es" and "res \<noteq> Post_ok"
  shows "r = Some (post_error res)" and "es \<noteq> []" and "last es = Send u call res"
  using assms unfolding loop_summary_def by blast+

subsection \<open>The whole run\<close>

lemma parse_news_index_page_error:
  "parse_news_index_page x u = Inl e \<Longrightarrow> e = Request_failed u \<and> http_get x u = None"
  by (auto simp: parse_news_index_page_def Let_def split: option.splits)

lemma parse_news_index_page_ok:
  "http_get x u \<noteq> None \<Longrightarrow> \<exists>items. parse_news_index_page x u = Inr items"
  by (auto simp: parse_news_index_page_def Let_def)

lemma parse_news_index_page_None:
  "http_get x u = None \<Longrightarrow> parse_news_index_page x u = Inl (Request_failed u)"
  by (simp add: parse_news_index_page_def)

lemma collect_pages_error:
  "collect_pages x pages acc = Inl e \<Longrightarrow> \<exists>u. e = Request_failed u"
proof (induction pages arbitrary: acc)
  case Nil
  then show ?case by simp
next
  case (Cons page pages)
  then show ?case
    by (auto simp: Let_def split: sum.splits if_splits dest: parse_news_index_page_error)
qed

text \<open>
  A run either ends before its loop, with nothing done, or is the loop over the ordered
  candidates, started with the table as \<open>init_db\<close> left it.
\<close>

lemma run_once_cases:
  assumes "run_once x file = (r, s')"
  obtains (idle) "trace s' = []" "store s' = init_db file" "posted_count s' = 0"
      "r = None \<or> r = Some Missing_config \<or> (\<exists>u. r = Some (Request_failed u))"
  | (loop) raw where "collect_new_links_all x = Inr raw"
      "run_loop x (run_cutoff x) (candidates_ordered (init_db file) raw)
         \<lparr>store = init_db file, clock_reads = 1, posted_count = 0, trace = []\<rparr> = (r, s')"
proof (cases "\<not> truthy (env_bot_token x) \<or> \<not> truthy (env_channel x)")
  case True
  then have "r = Some Missing_config"
    "s' = \<lparr>store = init_db file, clock_reads = 0, posted_count = 0, trace = []\<rparr>"
    using assms by (auto simp: run_once_def)
  then show ?thesis using idle by simp
next
  case False
  show ?thesis
  proof (cases "collect_new_links_all x")
    case (Inl e)
    then have "r = Some e"
      "s' = \<lparr>store = init_db file, clock_reads = 1, posted_count = 0, trace = []\<rparr>"
      using assms False by (auto simp: run_once_def Let_def)
    moreover have "\<exists>u. e = Request_failed u"
      using Inl collect_pages_error by (simp add: collect_new_links_all_def)
    ultimately show ?thesis using idle by simp
  next
    case (Inr raw)
    show ?thesis
    proof (cases "raw = [] \<or> filter (\<lambda>c. \<not> already_posted (init_db file) (fst c)) raw = []")
      case True
      then have "r = None"
        "s' = \<lparr>store = init_db file, clock_reads = 1, posted_count = 0, trace = []\<rparr>"
        using assms False Inr by (auto simp: run_once_def Let_def split: if_splits)
      then show ?thesis using idle by simp
    next
      case no: False
      then have "run_loop x (run_cutoff x) (candidates_ordered (init_db file) raw)
         \<lparr>store = init_db file, clock_reads = 1, posted_count = 0, trace = []\<rparr> = (r, s')"
        using assms False Inr
        by (auto simp: run_once_def Let_def run_cutoff_def candidates_ordered_def split: if_splits)
      then show ?thesis using loop Inr by blast
    qed
  qed
qed

text \<open>The summary of a run: the one of its loop, or of no loop at all.\<close>

lemma run_once_summary:
  assumes "run_once x file = (r, s')"
  obtains cands r' where
    "loop_summary x (run_cutoff x) cands
       \<lparr>store = init_db file, clock_reads = 1, posted_count = 0, trace = []\<rparr>
       r' s' (trace s')"
    and "\<And>c. c \<in> set cands \<Longrightarrow> \<not> already_posted (init_db file) (fst c)"
    and "\<And>raw. collect_new_links_all x = Inr raw \<Longrightarrow>
           prefix (fetched (trace s')) (map fst (candidates_ordered (init_db file) raw))"
    and "r' = r \<or> (r' = None \<and> trace s' = [])"
  using assms
proof (cases rule: run_once_cases)
  case idle
  let ?s0 = "\<lparr>store = init_db file, clock_reads = 1, posted_count = 0, trace = []\<rparr>"
  have "loop_summary x (run_cutoff x) [] ?s0 None s' (trace s')"
    using idle(1,2,3) by (simp add: loop_summary_def)
  moreover have "\<And>c. c \<in> set [] \<Longrightarrow> \<not> already_posted (init_db file) (fst c)"
    by simp
  moreover have "\<And>raw. collect_new_links_all x = Inr raw \<Longrightarrow>
           prefix (fetched (trace s')) (map fst (candidates_ordered (init_db file) raw))"
    using idle(1) by simp
  moreover have "None = r \<or> (None = None \<and> trace s' = [])"
    using idle(1) by simp
  ultimately show ?thesis by (rule that)
next
  case (loop raw)
  let ?s0 = "\<lparr>store = init_db file, clock_reads = 1, posted_count = 0, trace = []\<rparr>"
  let ?cands = "candidates_ordered (init_db file) raw"
  from run_loop_summary [OF loop(2)] obtain es where
    es: "loop_summary x (run_cutoff x) ?cands ?s0 r s' es" ..
  from loop_summaryD(1) [OF es] have t: "trace s' = es" by simp
  have a: "loop_summary x (run_cutoff x) ?cands ?s0 r s' (trace s')"
    using es t by simp
  have n: "\<And>c. c \<in> set ?cands \<Longrightarrow> \<not> already_posted (init_db file) (fst c)"
    by (simp add: candidates_ordered_def)
  have p: "\<And>raw'. collect_new_links_all x = Inr raw' \<Longrightarrow>
           prefix (fetched (trace s')) (map fst (candidates_ordered (init_db file) raw'))"
    using loop_summaryD(2) [OF a] loop(1) by simp
  have "r = r \<or> (r = None \<and> trace s' = [])" by simp
  with a n p show ?thesis by (rule that)
qed

lemma eligible_dated:
  "fetch_article_meta x u = Inr (Some dt, img, t) \<Longrightarrow> eligible x cutoff u \<longleftrightarrow> \<not> dt < cutoff"
  by (simp add: eligible_def)

lemma not_eligible_reasons:
  "\<not> eligible x cutoff u \<longleftrightarrow>
     (\<exists>e. fetch_article_meta x u = Inl e)
     \<or> (\<exists>img t. fetch_article_meta x u = Inr (None, img, t))
     \<or> (\<exists>dt img t. fetch_article_meta x u = Inr (Some dt, img, t) \<and> dt < cutoff)"
  by (auto simp: eligible_def split: sum.splits option.splits)

lemma sample_collect:
  "collect_new_links_all sample_world
     = Inr [(url_a, ''Update A''), (url_b, ''Sale B''), (url_c, ''News C'')]"
  by code_simp

text \<open>
  C2. A url that has a row in the table when the run starts is not among the candidates
  that the loop receives, and no event of the run concerns it: its page is not fetched, no
  caption is formatted for it, and no request for it is sent to the messaging API.
\<close>

theorem C2_posted_urls_dropped:
  assumes "already_posted (init_db file) url"
    and "run_once x file = (r, s')"
  shows "url \<notin> set (fetched (trace s'))
       \<and> url \<notin> set (formatted (trace s'))
       \<and> url \<notin> set (sent (trace s'))
       \<and> url \<notin> set (published (trace s'))
       \<and> url \<notin> event_url ` set (trace s')
       \<and> url \<notin> fst ` set (candidates_ordered (init_db file) raw)"
  using assms(2)
proof (rule run_once_summary)
  fix cands r'
  assume s: "loop_summary x (run_cutoff x) cands
          \<lparr>store = init_db file, clock_reads = 1, posted_count = 0, trace = []\<rparr>
          r' s' (trace s')"
    and n: "\<And>c. c \<in> set cands \<Longrightarrow> \<not> already_posted (init_db file) (fst c)"
  from loop_summaryD(3) [OF s] have "event_url ` set (trace s') \<subseteq> fst ` set cands" .
  with n assms(1) have e: "url \<notin> event_url ` set (trace s')" by auto
  have c: "url \<notin> fst ` set (candidates_ordered (init_db file) raw)"
    using assms(1) by (auto simp: candidates_ordered_def)
  have f: "url \<notin> set (fetched (trace s'))"
    using e fetched_event_url [of "trace s'"] by auto
  have g: "url \<notin> set (formatted (trace s'))"
    using e formatted_event_url [of "trace s'"] by auto
  have h: "url \<notin> set (sent (trace s'))"
    using e sent_event_url [of "trace s'"] by auto
  have i: "url \<notin> set (published (trace s'))"
    using h published_sent [of "trace s'"] by auto
  from f g h i e c show "url \<notin> set (fetched (trace s'))
       \<and> url \<notin> set (formatted (trace s'))
       \<and> url \<notin> set (sent (trace s'))
       \<and> url \<notin> set (published (trace s'))
       \<and> url \<notin> event_url ` set (trace s')
       \<and> url \<notin> fst ` set (candidates_ordered (init_db file) raw)"
    by simp
qed

theorem C2_posted_urls_dropped_witness:
  "already_posted
     (init_db (Some [\<lparr>row_url = url_c, row_title = ''News C'', row_tag = ''general-news'',
                      row_posted_at = 7\<rparr>])) url_c
   \<and> url_c \<notin> set (fetched (trace (snd (run_once sample_world
        (Some [\<lparr>row_url = url_c, row_title = ''News C'', row_tag = ''general-news'',
                row_posted_at = 7\<rparr>])))))
   \<and> url_c \<notin> set (sent (trace (snd (run_once sample_world
        (Some [\<lparr>row_url = url_c, row_title = ''News C'', row_tag = ''general-news'',
                row_posted_at = 7\<rparr>])))))
   \<and> fetched (trace (snd (run_once sample_world
        (Some [\<lparr>row_url = url_c, row_title = ''News C'', row_tag = ''general-news'',
                row_posted_at = 7\<rparr>])))) = [url_b, url_a]"
proof -
  let ?file = "Some [\<lparr>row_url = url_c, row_title = ''News C'', row_tag = ''general-news'',
                      row_posted_at = 7::int\<rparr>]"
  have p: "already_posted (init_db ?file) url_c"
    by (simp add: init_db_def already_posted_def)
  have q: "run_once sample_world ?file
             = (fst (run_once sample_world ?file), snd (run_once sample_world ?file))"
    by simp
  have f: "fetched (trace (snd (run_once sample_world ?file))) = [url_b, url_a]"
    by code_simp
  from C2_posted_urls_dropped [OF p q] p f show ?thesis by simp
qed

text \<open>
  C5. The requests that the messaging API accepted in a run are counted by
  \<open>posted_count\<close> and never exceed \<open>MAX_POSTS_PER_RUN\<close>. Once the counter has reached
  the cap, the loop returns at once and leaves the remaining candidates untouched.
\<close>

theorem C5_at_most_cap:
  "length (published (trace (snd (run_once x file)))) \<le> MAX_POSTS_PER_RUN
   \<and> posted_count (snd (run_once x file)) = length (published (trace (snd (run_once x file))))
   \<and> (MAX_POSTS_PER_RUN \<le> posted_count s \<longrightarrow> run_loop x cutoff cands s = (None, s))"
proof -
  obtain r s' where run: "run_once x file = (r, s')"
    by (cases "run_once x file") auto
  have ab: "posted_count s' = length (published (trace s')) \<and> posted_count s' \<le> MAX_POSTS_PER_RUN"
    using run
  proof (rule run_once_summary)
    fix cs r'
    assume s: "loop_summary x (run_cutoff x) cs
          \<lparr>store = init_db file, clock_reads = 1, posted_count = 0, trace = []\<rparr>
          r' s' (trace s')"
    from loop_summaryD(11) [OF s] loop_summaryD(12) [OF s]
    show "posted_count s' = length (published (trace s')) \<and> posted_count s' \<le> MAX_POSTS_PER_RUN"
      by simp
  qed
  have c: "MAX_POSTS_PER_RUN \<le> posted_count s \<longrightarrow> run_loop x cutoff cands s = (None, s)"
    by (cases cands) simp_all
  from ab c run show ?thesis by simp
qed

theorem C5_at_most_cap_witness:
  "MAX_POSTS_PER_RUN \<le> posted_count \<lparr>store = [], clock_reads = 3, posted_count = 2, trace = []\<rparr>
   \<and> run_loop sample_world 0 [(url_a, ''Update A'')]
        \<lparr>store = [], clock_reads = 3, posted_count = 2, trace = []\<rparr>
      = (None, \<lparr>store = [], clock_reads = 3, posted_count = 2, trace = []\<rparr>)
   \<and> length (published (trace (snd (run_once sample_world None)))) \<le> MAX_POSTS_PER_RUN
   \<and> published (trace (snd (run_once sample_world None))) = [url_c, url_b]"
proof -
  let ?s = "\<lparr>store = [], clock_reads = 3, posted_count = 2, trace = []\<rparr>"
  have h: "MAX_POSTS_PER_RUN \<le> posted_count ?s"
    by (simp add: MAX_POSTS_PER_RUN_def)
  have p: "published (trace (snd (run_once sample_world None))) = [url_c, url_b]"
    by code_simp
  from C5_at_most_cap [of sample_world None ?s 0 "[(url_a, ''Update A'')]"] h p
  show ?thesis by simp
qed

text \<open>
  C1. Take a candidate whose page the run fetched, and whose fetch yields the date
  \<open>published_at\<close>. The run formats it and sends the request to publish it exactly when
  the first reading of the clock minus \<open>published_at\<close> is at most the window of
  \<open>WINDOW_HOURS\<close> = 48 hours, and in a run that no error ended that is exactly when the
  messaging API accepted it. A candidate older than the cutoff is marked, so it has a row
  in the table afterwards, and nothing is formatted or sent for it.
\<close>

theorem C1_window_admission:
  assumes "run_once x file = (r, s')"
    and "url \<in> set (fetched (trace s'))"
    and "fetch_article_meta x url = Inr (Some published_at, img, title)"
  shows "(url \<in> set (sent (trace s'))
            \<longleftrightarrow> clock x 0 - published_at \<le> timedelta_hours WINDOW_HOURS)
       \<and> (r = None \<longrightarrow>
            (url \<in> set (published (trace s'))
               \<longleftrightarrow> clock x 0 - published_at \<le> timedelta_hours WINDOW_HOURS))
       \<and> (published_at < clock x 0 - timedelta_hours WINDOW_HOURS \<longrightarrow>
            already_posted (store s') url
            \<and> url \<in> set (marked (trace s'))
            \<and> url \<notin> set (formatted (trace s'))
            \<and> url \<notin> set (sent (trace s'))
            \<and> url \<notin> set (published (trace s')))
       \<and> timedelta_hours WINDOW_HOURS = 48 * 3600 * 1000000"
  using assms(1)
proof (rule run_once_summary)
  let ?es = "trace s'"
  fix cands r'
  assume s: "loop_summary x (run_cutoff x) cands
          \<lparr>store = init_db file, clock_reads = 1, posted_count = 0, trace = []\<rparr> r' s' ?es"
    and r': "r' = r \<or> (r' = None \<and> ?es = [])"
  have el: "eligible x (run_cutoff x) url
              \<longleftrightarrow> clock x 0 - published_at \<le> timedelta_hours WINDOW_HOURS"
    using eligible_dated [OF assms(3), of "run_cutoff x"] by (auto simp: run_cutoff_def)
  note snt = loop_summaryD(4) [OF s]
  have a: "url \<in> set (sent ?es) \<longleftrightarrow> clock x 0 - published_at \<le> timedelta_hours WINDOW_HOURS"
    using snt assms(2) el by simp
  have b: "r = None \<longrightarrow>
            (url \<in> set (published ?es)
               \<longleftrightarrow> clock x 0 - published_at \<le> timedelta_hours WINDOW_HOURS)"
  proof
    assume "r = None"
    with r' have "r' = None" by auto
    from loop_summaryD(6) [OF s this] have "published ?es = sent ?es" .
    with a show "url \<in> set (published ?es)
               \<longleftrightarrow> clock x 0 - published_at \<le> timedelta_hours WINDOW_HOURS" by simp
  qed
  have c: "published_at < clock x 0 - timedelta_hours WINDOW_HOURS \<longrightarrow>
            already_posted (store s') url
            \<and> url \<in> set (marked ?es)
            \<and> url \<notin> set (formatted ?es)
            \<and> url \<notin> set (sent ?es)
            \<and> url \<notin> set (published ?es)"
  proof
    assume old: "published_at < clock x 0 - timedelta_hours WINDOW_HOURS"
    then have ne: "\<not> eligible x (run_cutoff x) url" using el by auto
    from loop_summaryD(9) [OF s] ne assms(2) have m: "url \<in> set (marked ?es)" by auto
    from loop_summaryD(13) [OF s] m have "url \<in> set (map row_url (store s'))"
      by (simp del: set_map)
    then have st: "already_posted (store s') url"
      by (simp only: already_posted_iff)
    have ns: "url \<notin> set (sent ?es)" using snt ne by simp
    then have nf: "url \<notin> set (formatted ?es)" using loop_summaryD(5) [OF s] by simp
    have np: "url \<notin> set (published ?es)" using ns published_sent [of ?es] by auto
    from st m nf ns np show "already_posted (store s') url
            \<and> url \<in> set (marked ?es)
            \<and> url \<notin> set (formatted ?es)
            \<and> url \<notin> set (sent ?es)
            \<and> url \<notin> set (published ?es)"
      by simp
  qed
  have d: "timedelta_hours WINDOW_HOURS = 48 * 3600 * 1000000"
    by (simp add: timedelta_hours_def WINDOW_HOURS_def)
  from a b c d show "(url \<in> set (sent (trace s'))
            \<longleftrightarrow> clock x 0 - published_at \<le> timedelta_hours WINDOW_HOURS)
       \<and> (r = None \<longrightarrow>
            (url \<in> set (published (trace s'))
               \<longleftrightarrow> clock x 0 - published_at \<le> timedelta_hours WINDOW_HOURS))
       \<and> (published_at < clock x 0 - timedelta_hours WINDOW_HOURS \<longrightarrow>
            already_posted (store s') url
            \<and> url \<in> set (marked (trace s'))
            \<and> url \<notin> set (formatted (trace s'))
            \<and> url \<notin> set (sent (trace s'))
            \<and> url \<notin> set (published (trace s')))
       \<and> timedelta_hours WINDOW_HOURS = 48 * 3600 * 1000000"
    by simp
qed

theorem C1_window_admission_witness:
  "url_c \<in> set (fetched (trace (snd (run_once stale_world None))))
   \<and> fetch_article_meta stale_world url_c = Inr (Some 0, None, None)
   \<and> (0::int) < clock stale_world 0 - timedelta_hours WINDOW_HOURS
   \<and> url_c \<notin> set (sent (trace (snd (run_once stale_world None))))
   \<and> already_posted (store (snd (run_once stale_world None))) url_c
   \<and> url_b \<in> set (fetched (trace (snd (run_once stale_world None))))
   \<and> fetch_article_meta stale_world url_b = Inr (Some 3456000000000, None, Some ''Sale B'')
   \<and> clock stale_world 0 - 3456000000000 \<le> timedelta_hours WINDOW_HOURS
   \<and> url_b \<in> set (sent (trace (snd (run_once stale_world None))))
   \<and> url_b \<in> set (published (trace (snd (run_once stale_world None))))"
proof -
  let ?r = "run_once stale_world None"
  have q: "?r = (fst ?r, snd ?r)" by simp
  have n: "fst ?r = None" by code_simp
  have f: "fetched (trace (snd ?r)) = [url_c, url_b, url_a]" by code_simp
  then have fc: "url_c \<in> set (fetched (trace (snd ?r)))"
    and fb: "url_b \<in> set (fetched (trace (snd ?r)))" by simp_all
  have mc: "fetch_article_meta stale_world url_c = Inr (Some 0, None, None)" by code_simp
  have mb: "fetch_article_meta stale_world url_b = Inr (Some 3456000000000, None, Some ''Sale B'')"
    by code_simp
  have oc: "(0::int) < clock stale_world 0 - timedelta_hours WINDOW_HOURS" by code_simp
  have ob: "clock stale_world 0 - 3456000000000 \<le> timedelta_hours WINDOW_HOURS" by code_simp
  from C1_window_admission [OF q fc mc] oc
  have c: "url_c \<notin> set (sent (trace (snd ?r)))" "already_posted (store (snd ?r)) url_c"
    by simp_all
  from C1_window_admission [OF q fb mb] ob n
  have b: "url_b \<in> set (sent (trace (snd ?r)))" "url_b \<in> set (published (trace (snd ?r)))"
    by simp_all
  from fc mc oc c fb mb ob b show ?thesis by simp
qed

subsection \<open>The order of publication\<close>

lemma process_candidate_accepted:
  assumes el: "eligible x cutoff (fst cand)"
    and ok: "\<And>call. tg_post x call = Post_ok"
  obtains s' where "process_candidate x cutoff cand s = (None, s')"
    and "posted_count s' = posted_count s + 1"
    and "fetched (trace s') = fetched (trace s) @ [fst cand]"
    and "published (trace s') = published (trace s) @ [fst cand]"
proof -
  obtain r s' where pc: "process_candidate x cutoff cand s = (r, s')"
    by (cases "process_candidate x cutoff cand s") auto
  from process_candidate_cases [OF pc] el ok
  have "r = None \<and> posted_count s' = posted_count s + 1
          \<and> (\<exists>call t g. tg_post x call = Post_ok
                \<and> trace s' = trace s @ [Fetch_meta (fst cand), Format_caption (fst cand),
                                          Send (fst cand) call Post_ok, Mark (fst cand) t g])"
    by auto
  then obtain call t g where "r = None" "posted_count s' = posted_count s + 1"
    and tr: "trace s' = trace s @ [Fetch_meta (fst cand), Format_caption (fst cand),
                                          Send (fst cand) call Post_ok, Mark (fst cand) t g]"
    by auto
  moreover have "fetched (trace s') = fetched (trace s) @ [fst cand]"
    by (simp add: tr fetched_append)
  moreover have "published (trace s') = published (trace s) @ [fst cand]"
    by (simp add: tr published_append)
  ultimately show ?thesis using pc that by simp
qed

lemma run_once_order:
  assumes run: "run_once x file = (r, s')"
  shows "(collect_new_links_all x = Inr raw \<longrightarrow>
      prefix (fetched (trace s'))
        (rev (map fst (filter (\<lambda>c. \<not> already_posted (init_db file) (fst c)) raw))))
     \<and> subseq (published (trace s')) (fetched (trace s'))"
    using run
  proof (rule run_once_summary)
    fix cands r'
    assume s: "loop_summary x (run_cutoff x) cands
          \<lparr>store = init_db file, clock_reads = 1, posted_count = 0, trace = []\<rparr>
          r' s' (trace s')"
      and p: "\<And>raw. collect_new_links_all x = Inr raw \<Longrightarrow>
           prefix (fetched (trace s')) (map fst (candidates_ordered (init_db file) raw))"
    have "collect_new_links_all x = Inr raw \<longrightarrow>
      prefix (fetched (trace s'))
        (rev (map fst (filter (\<lambda>c. \<not> already_posted (init_db file) (fst c)) raw)))"
      using p [of raw] by (simp add: candidates_ordered_def rev_map)
    with loop_summaryD(7) [OF s]
    show "(collect_new_links_all x = Inr raw \<longrightarrow>
      prefix (fetched (trace s'))
        (rev (map fst (filter (\<lambda>c. \<not> already_posted (init_db file) (fst c)) raw))))
     \<and> subseq (published (trace s')) (fetched (trace s'))"
      by simp
  qed
lemma run_loop_two_accepted:
  assumes el: "eligible x cutoff C" "eligible x cutoff B"
    and ok: "\<And>call. tg_post x call = Post_ok"
    and z: "posted_count s0 = 0"
  obtains s2 where "run_loop x cutoff ((C, tc) # (B, tb) # rest) s0 = (None, s2)"
    and "fetched (trace s2) = fetched (trace s0) @ [C, B]"
    and "published (trace s2) = published (trace s0) @ [C, B]"
proof -
  from el(1) have e1: "eligible x cutoff (fst (C, tc))" by simp
  from el(2) have e2: "eligible x cutoff (fst (B, tb))" by simp
  obtain s1 where p1: "process_candidate x cutoff (C, tc) s0 = (None, s1)"
    and c1: "posted_count s1 = posted_count s0 + 1"
    and f1: "fetched (trace s1) = fetched (trace s0) @ [fst (C, tc)]"
    and b1: "published (trace s1) = published (trace s0) @ [fst (C, tc)]"
    by (rule process_candidate_accepted [OF e1 ok])
  obtain s2 where p2: "process_candidate x cutoff (B, tb) s1 = (None, s2)"
    and c2: "posted_count s2 = posted_count s1 + 1"
    and f2: "fetched (trace s2) = fetched (trace s1) @ [fst (B, tb)]"
    and b2: "published (trace s2) = published (trace s1) @ [fst (B, tb)]"
    by (rule process_candidate_accepted [OF e2 ok])
  have n0: "\<not> MAX_POSTS_PER_RUN \<le> posted_count s0" by (simp add: z MAX_POSTS_PER_RUN_def)
  have n1: "\<not> MAX_POSTS_PER_RUN \<le> posted_count s1" by (simp add: c1 z MAX_POSTS_PER_RUN_def)
  have n2: "MAX_POSTS_PER_RUN \<le> posted_count s2" by (simp add: c2 c1 z MAX_POSTS_PER_RUN_def)
  have l2: "run_loop x cutoff rest s2 = (None, s2)"
    using n2 by (cases rest) simp_all
  have "run_loop x cutoff ((C, tc) # (B, tb) # rest) s0 = (None, s2)"
    by (simp add: n0 n1 p1 p2 l2)
  moreover have "fetched (trace s2) = fetched (trace s0) @ [C, B]" by (simp add: f2 f1)
  moreover have "published (trace s2) = published (trace s0) @ [C, B]" by (simp add: b2 b1)
  ultimately show ?thesis by (rule that)
qed
lemma run_once_loop:
  assumes "truthy (env_bot_token x)" "truthy (env_channel x)"
    and "collect_new_links_all x = Inr raw"
    and "filter (\<lambda>c. \<not> already_posted (init_db file) (fst c)) raw \<noteq> []"
  shows "run_once x file =
     run_loop x (run_cutoff x) (candidates_ordered (init_db file) raw)
       \<lparr>store = init_db file, clock_reads = 1, posted_count = 0, trace = []\<rparr>"
proof -
  from assms(4) have "raw \<noteq> []" by auto
  with assms show ?thesis
    by (simp add: run_once_def Let_def run_cutoff_def candidates_ordered_def)
qed

lemma sample_world_ready:
  "truthy (env_bot_token sample_world)" "truthy (env_channel sample_world)"
  "\<forall>call. tg_post sample_world call = Post_ok"
  by (simp_all add: sample_world_def truthy_def)

text \<open>
  C6. The loop receives the new candidates in reverse order of discovery, fetches them in
  that order, and the accepted requests follow the order of the fetches. So when the index
  yields \<open>A\<close>, \<open>B\<close>, \<open>C\<close> (newest first), none of them has a row in the table, all three
  are eligible, the messaging API accepts every request and the cap is 2, the run
  publishes \<open>C\<close> and then \<open>B\<close>, and does not touch \<open>A\<close>.
\<close>

theorem C6_oldest_first:
  "(collect_new_links_all x = Inr raw \<longrightarrow>
      prefix (fetched (trace (snd (run_once x file))))
        (rev (map fst (filter (\<lambda>c. \<not> already_posted (init_db file) (fst c)) raw))))
   \<and> subseq (published (trace (snd (run_once x file)))) (fetched (trace (snd (run_once x file))))
   \<and> MAX_POSTS_PER_RUN = 2
   \<and> (truthy (env_bot_token x) \<longrightarrow> truthy (env_channel x) \<longrightarrow>
      collect_new_links_all x = Inr [(A, ta), (B, tb), (C, tc)] \<longrightarrow>
      \<not> already_posted (init_db file) A \<longrightarrow> \<not> already_posted (init_db file) B \<longrightarrow>
      \<not> already_posted (init_db file) C \<longrightarrow>
      eligible x (run_cutoff x) A \<longrightarrow> eligible x (run_cutoff x) B \<longrightarrow>
      eligible x (run_cutoff x) C \<longrightarrow>
      (\<forall>call. tg_post x call = Post_ok) \<longrightarrow>
      fst (run_once x file) = None
      \<and> fetched (trace (snd (run_once x file))) = [C, B]
      \<and> published (trace (snd (run_once x file))) = [C, B])"
proof -
  obtain r s' where run: "run_once x file = (r, s')"
    by (cases "run_once x file") auto
  have gen: "(collect_new_links_all x = Inr raw \<longrightarrow>
      prefix (fetched (trace (snd (run_once x file))))
        (rev (map fst (filter (\<lambda>c. \<not> already_posted (init_db file) (fst c)) raw))))
     \<and> subseq (published (trace (snd (run_once x file)))) (fetched (trace (snd (run_once x file))))"
    using run_once_order [OF run, of raw] by (simp add: run)
  have cap: "MAX_POSTS_PER_RUN = 2" by (simp add: MAX_POSTS_PER_RUN_def)
  have ex: "fst (run_once x file) = None
      \<and> fetched (trace (snd (run_once x file))) = [C, B]
      \<and> published (trace (snd (run_once x file))) = [C, B]"
    if cfg: "truthy (env_bot_token x)" "truthy (env_channel x)"
      and col: "collect_new_links_all x = Inr [(A, ta), (B, tb), (C, tc)]"
      and new: "\<not> already_posted (init_db file) A" "\<not> already_posted (init_db file) B"
        "\<not> already_posted (init_db file) C"
      and el: "eligible x (run_cutoff x) C" "eligible x (run_cutoff x) B"
      and ok: "\<forall>call. tg_post x call = Post_ok"
  proof -
    let ?s0 = "\<lparr>store = init_db file, clock_reads = 1, posted_count = 0, trace = []\<rparr>"
    have ne: "filter (\<lambda>c. \<not> already_posted (init_db file) (fst c)) [(A, ta), (B, tb), (C, tc)]
              \<noteq> []"
      using new by simp
    have co: "candidates_ordered (init_db file) [(A, ta), (B, tb), (C, tc)]
              = [(C, tc), (B, tb), (A, ta)]"
      using new by (simp add: candidates_ordered_def)
    have ro: "run_once x file = run_loop x (run_cutoff x) [(C, tc), (B, tb), (A, ta)] ?s0"
      using run_once_loop [OF cfg col ne] by (simp only: co)
    from ok have ok': "\<And>call. tg_post x call = Post_ok" by simp
    have z: "posted_count ?s0 = 0" by simp
    obtain s2 where l: "run_loop x (run_cutoff x) ((C, tc) # (B, tb) # [(A, ta)]) ?s0 = (None, s2)"
      and f: "fetched (trace s2) = fetched (trace ?s0) @ [C, B]"
      and p: "published (trace s2) = published (trace ?s0) @ [C, B]"
      by (rule run_loop_two_accepted [OF el ok' z])
    from l have "run_once x file = (None, s2)" by (simp only: ro)
    moreover from f have "fetched (trace s2) = [C, B]" by simp
    moreover from p have "published (trace s2) = [C, B]" by simp
    ultimately show ?thesis by simp
  qed
  show ?thesis
    apply (intro conjI impI)
    using gen apply simp
    using gen apply simp
    apply (rule cap)
    using ex apply simp
    using ex apply simp
    using ex apply simp
    done
qed

theorem C6_oldest_first_witness:
  "truthy (env_bot_token sample_world) \<and> truthy (env_channel sample_world)
   \<and> collect_new_links_all sample_world
       = Inr [(url_a, ''Update A''), (url_b, ''Sale B''), (url_c, ''News C'')]
   \<and> \<not> already_posted (init_db None) url_a
   \<and> \<not> already_posted (init_db None) url_b
   \<and> \<not> already_posted (init_db None) url_c
   \<and> eligible sample_world (run_cutoff sample_world) url_a
   \<and> eligible sample_world (run_cutoff sample_world) url_b
   \<and> eligible sample_world (run_cutoff sample_world) url_c
   \<and> (\<forall>call. tg_post sample_world call = Post_ok)
   \<and> fst (run_once sample_world None) = None
   \<and> fetched (trace (snd (run_once sample_world None))) = [url_c, url_b]
   \<and> published (trace (snd (run_once sample_world None))) = [url_c, url_b]"
proof -
  have n: "\<not> already_posted (init_db None) url_a" "\<not> already_posted (init_db None) url_b"
    "\<not> already_posted (init_db None) url_c"
    by (simp_all add: init_db_def already_posted_def)
  have ea: "eligible sample_world (run_cutoff sample_world) url_a" by code_simp
  have eb: "eligible sample_world (run_cutoff sample_world) url_b" by code_simp
  have ec: "eligible sample_world (run_cutoff sample_world) url_c" by code_simp
  have "fst (run_once sample_world None) = None
      \<and> fetched (trace (snd (run_once sample_world None))) = [url_c, url_b]
      \<and> published (trace (snd (run_once sample_world None))) = [url_c, url_b]"
    using C6_oldest_first [of sample_world _ None url_a "''Update A''" url_b "''Sale B''"
        url_c "''News C''"]
      sample_world_ready sample_collect n ea eb ec
    by simp
  with sample_world_ready sample_collect n ea eb ec show ?thesis by simp
qed

subsection \<open>Rows of the table and refused requests\<close>

lemma run_once_rows:
  assumes run: "run_once x file = (r, s')"
  shows "set (map row_url (store s')) = set (map row_url (init_db file)) \<union> set (marked (trace s'))"
  using run
proof (rule run_once_summary)
  fix cands r'
  assume s: "loop_summary x (run_cutoff x) cands
        \<lparr>store = init_db file, clock_reads = 1, posted_count = 0, trace = []\<rparr>
        r' s' (trace s')"
  from loop_summaryD(13) [OF s]
  show "set (map row_url (store s')) = set (map row_url (init_db file)) \<union> set (marked (trace s'))"
    by simp
qed

lemma run_once_marked:
  assumes run: "run_once x file = (r, s')" and m: "u \<in> set (marked (trace s'))"
  shows "u \<in> set (published (trace s')) \<or> \<not> eligible x (run_cutoff x) u"
  using run
proof (rule run_once_summary)
  fix cands r'
  assume s: "loop_summary x (run_cutoff x) cands
        \<lparr>store = init_db file, clock_reads = 1, posted_count = 0, trace = []\<rparr>
        r' s' (trace s')"
  from loop_summaryD(10) [OF s] m
  show "u \<in> set (published (trace s')) \<or> \<not> eligible x (run_cutoff x) u"
    by auto
qed

lemma run_once_refused:
  assumes run: "run_once x file = (r, s')"
    and snd: "Send u call res \<in> set (trace s')" and no: "res \<noteq> Post_ok"
  shows "r = Some (post_error res)
     \<and> (\<exists>es0. trace s' = es0 @ [Fetch_meta u, Format_caption u, Send u call res]
           \<and> marked (trace s') = marked es0
           \<and> (u \<notin> set (fetched es0) \<longrightarrow> \<not> already_posted (store s') u))"
  using run
proof (rule run_once_summary)
  fix cands r'
  assume s: "loop_summary x (run_cutoff x) cands
        \<lparr>store = init_db file, clock_reads = 1, posted_count = 0, trace = []\<rparr>
        r' s' (trace s')"
    and new: "\<And>c. c \<in> set cands \<Longrightarrow> \<not> already_posted (init_db file) (fst c)"
    and rr: "r' = r \<or> (r' = None \<and> trace s' = [])"
  have r': "r' = Some (post_error res)" and l: "last (trace s') = Send u call res"
    by (rule loop_summary_refused [OF s snd no])+
  from r' rr have r: "r = Some (post_error res)" by auto
  from r' have "r' \<noteq> None" by simp
  from loop_summary_abort [OF s this]
  obtain es0 u' call' where
    tr: "trace s' = es0 @ [Fetch_meta u', Format_caption u', Send u' call' (tg_post x call')]"
    and mk: "marked (trace s') = marked es0"
    and sub: "set (marked es0) \<subseteq> set (fetched es0)"
    by auto
  from l tr have eq: "u' = u" "call' = call" "tg_post x call' = res" by auto
  from eq have res: "tg_post x call = res" by simp
  have tr': "trace s' = es0 @ [Fetch_meta u, Format_caption u, Send u call res]"
    using tr unfolding eq(1,2) res by simp
  have fresh: "\<not> already_posted (store s') u" if nf: "u \<notin> set (fetched es0)"
  proof -
    have "event_url (Send u call res) \<in> event_url ` set (trace s')"
      using snd by (rule imageI)
    with loop_summaryD(3) [OF s] have "u \<in> fst ` set cands" by auto
    then obtain c where "c \<in> set cands" "u = fst c" by auto
    with new have "\<not> already_posted (init_db file) u" by simp
    then have 1: "u \<notin> set (map row_url (init_db file))" by (simp add: already_posted_iff)
    from nf sub have 2: "u \<notin> set (marked (trace s'))" by (auto simp: mk)
    from loop_summaryD(13) [OF s]
    have "set (map row_url (store s')) = set (map row_url (init_db file)) \<union> set (marked (trace s'))"
      by simp
    with 1 2 have "u \<notin> set (map row_url (store s'))" by simp
    then show ?thesis by (simp add: already_posted_iff)
  qed
  from tr' mk fresh
  have "\<exists>es0. trace s' = es0 @ [Fetch_meta u, Format_caption u, Send u call res]
           \<and> marked (trace s') = marked es0
           \<and> (u \<notin> set (fetched es0) \<longrightarrow> \<not> already_posted (store s') u)"
    by (intro exI [of _ es0] conjI impI)
  with r show "r = Some (post_error res)
     \<and> (\<exists>es0. trace s' = es0 @ [Fetch_meta u, Format_caption u, Send u call res]
           \<and> marked (trace s') = marked es0
           \<and> (u \<notin> set (fetched es0) \<longrightarrow> \<not> already_posted (store s') u))"
    by (rule conjI)
qed

lemma process_candidate_error:
  assumes "process_candidate x cutoff cand s = (Some e, s1)"
  shows "store s1 = store s" and "posted_count s1 = posted_count s"
    and "\<exists>call. tg_post x call \<noteq> Post_ok \<and> e = post_error (tg_post x call)
           \<and> trace s1 = trace s @ [Fetch_meta (fst cand), Format_caption (fst cand),
                                     Send (fst cand) call (tg_post x call)]"
  using process_candidate_cases [OF assms] by auto

lemma run_loop_error:
  assumes "process_candidate x cutoff cand s = (Some e, s1)"
    and "posted_count s < MAX_POSTS_PER_RUN"
  shows "run_loop x cutoff (cand # rest) s = (Some e, s1)"
  using assms by simp

text \<open>
  C9. The rows of the table after a run are those it had before and one for each url that
  the run marked. A url is marked only after its request was accepted by the messaging API,
  or after it was skipped because its page could not be fetched, gave no date, or gave a
  date before the cutoff. When the messaging API does not accept a request, the run ends
  with the error of that request, the request is the last event of the run, the candidate
  adds no row, and, unless the same url was fetched earlier in the run, the table has no
  row for it. At the level of one candidate: a candidate that ends with an error leaves
  the table and the counter as they were, and the loop returns that error at once.
\<close>

theorem C9_rows_only_for_published_or_skipped:
  assumes "run_once x file = (r, s')"
  shows "set (map row_url (store s')) = set (map row_url (init_db file)) \<union> set (marked (trace s'))
    \<and> (\<forall>u \<in> set (marked (trace s')).
          u \<in> set (published (trace s'))
          \<or> (\<exists>e. fetch_article_meta x u = Inl e)
          \<or> (\<exists>img t. fetch_article_meta x u = Inr (None, img, t))
          \<or> (\<exists>dt img t. fetch_article_meta x u = Inr (Some dt, img, t) \<and> dt < run_cutoff x))
    \<and> (\<forall>u call res. Send u call res \<in> set (trace s') \<longrightarrow> res \<noteq> Post_ok \<longrightarrow>
          r = Some (post_error res)
          \<and> (\<exists>es0. trace s' = es0 @ [Fetch_meta u, Format_caption u, Send u call res]
                \<and> marked (trace s') = marked es0
                \<and> (u \<notin> set (fetched es0) \<longrightarrow> \<not> already_posted (store s') u)))
    \<and> post_error Post_not_ok = Telegram_api_error
    \<and> (\<forall>call. tg_post x call = Post_not_ok \<longrightarrow> tg_api_post x call = Inl Telegram_api_error)
    \<and> (\<forall>cand s e s1 rest.
          process_candidate x (run_cutoff x) cand s = (Some e, s1) \<longrightarrow>
          store s1 = store s \<and> posted_count s1 = posted_count s
          \<and> (posted_count s < MAX_POSTS_PER_RUN \<longrightarrow>
               run_loop x (run_cutoff x) (cand # rest) s = (Some e, s1)))"
proof -
  have a: "set (map row_url (store s'))
           = set (map row_url (init_db file)) \<union> set (marked (trace s'))"
    by (rule run_once_rows [OF assms])
  have b: "\<forall>u \<in> set (marked (trace s')).
          u \<in> set (published (trace s'))
          \<or> (\<exists>e. fetch_article_meta x u = Inl e)
          \<or> (\<exists>img t. fetch_article_meta x u = Inr (None, img, t))
          \<or> (\<exists>dt img t. fetch_article_meta x u = Inr (Some dt, img, t) \<and> dt < run_cutoff x)"
  proof
    fix u
    assume "u \<in> set (marked (trace s'))"
    from run_once_marked [OF assms this]
    show "u \<in> set (published (trace s'))
          \<or> (\<exists>e. fetch_article_meta x u = Inl e)
          \<or> (\<exists>img t. fetch_article_meta x u = Inr (None, img, t))
          \<or> (\<exists>dt img t. fetch_article_meta x u = Inr (Some dt, img, t) \<and> dt < run_cutoff x)"
      unfolding not_eligible_reasons by simp
  qed
  have c: "\<forall>u call res. Send u call res \<in> set (trace s') \<longrightarrow> res \<noteq> Post_ok \<longrightarrow>
          r = Some (post_error res)
          \<and> (\<exists>es0. trace s' = es0 @ [Fetch_meta u, Format_caption u, Send u call res]
                \<and> marked (trace s') = marked es0
                \<and> (u \<notin> set (fetched es0) \<longrightarrow> \<not> already_posted (store s') u))"
  proof (intro allI impI)
    fix u call res
    assume "Send u call res \<in> set (trace s')" and "res \<noteq> Post_ok"
    then show "r = Some (post_error res)
          \<and> (\<exists>es0. trace s' = es0 @ [Fetch_meta u, Format_caption u, Send u call res]
                \<and> marked (trace s') = marked es0
                \<and> (u \<notin> set (fetched es0) \<longrightarrow> \<not> already_posted (store s') u))"
      by (rule run_once_refused [OF assms])
  qed
  have d: "post_error Post_not_ok = Telegram_api_error"
    by (simp add: post_error_def)
  have e: "\<forall>call. tg_post x call = Post_not_ok \<longrightarrow> tg_api_post x call = Inl Telegram_api_error"
    by (simp add: tg_api_post_def)
  have f: "\<forall>cand s e s1 rest.
          process_candidate x (run_cutoff x) cand s = (Some e, s1) \<longrightarrow>
          store s1 = store s \<and> posted_count s1 = posted_count s
          \<and> (posted_count s < MAX_POSTS_PER_RUN \<longrightarrow>
               run_loop x (run_cutoff x) (cand # rest) s = (Some e, s1))"
  proof (intro allI impI conjI)
    fix cand s e s1 rest
    assume pc: "process_candidate x (run_cutoff x) cand s = (Some e, s1)"
    show "store s1 = store s" by (rule process_candidate_error(1) [OF pc])
    show "posted_count s1 = posted_count s" by (rule process_candidate_error(2) [OF pc])
    assume "posted_count s < MAX_POSTS_PER_RUN"
    with pc show "run_loop x (run_cutoff x) (cand # rest) s = (Some e, s1)"
      by (rule run_loop_error)
  qed
  show ?thesis by (intro conjI a b c d e f)
qed

theorem C9_rows_only_for_published_or_skipped_witness:
  "fst (run_once halting_world None) = Some Telegram_api_error
   \<and> trace (snd (run_once halting_world None))
       = [Fetch_meta url_c, Mark url_c ''News C'' ''general-news'',
          Fetch_meta url_b, Format_caption url_b, Send url_b call_b Post_not_ok]
   \<and> map row_url (store (snd (run_once halting_world None))) = [url_c]
   \<and> fetch_article_meta halting_world url_c = Inr (Some 0, None, None)
   \<and> 0 < run_cutoff halting_world
   \<and> \<not> already_posted (store (snd (run_once halting_world None))) url_b
   \<and> fst (process_candidate halting_world (run_cutoff halting_world) (url_b, ''Sale B'')
            \<lparr>store = [], clock_reads = 1, posted_count = 0, trace = []\<rparr>)
       = Some Telegram_api_error
   \<and> store (snd (process_candidate halting_world (run_cutoff halting_world) (url_b, ''Sale B'')
            \<lparr>store = [], clock_reads = 1, posted_count = 0, trace = []\<rparr>)) = []"
proof -
  let ?r = "fst (run_once halting_world None)"
  let ?fin = "snd (run_once halting_world None)"
  let ?init = "\<lparr>store = [], clock_reads = 1, posted_count = 0, trace = []\<rparr>"
  let ?p = "process_candidate halting_world (run_cutoff halting_world) (url_b, ''Sale B'') ?init"
  have run: "run_once halting_world None = (?r, ?fin)" by simp
  note inst = C9_rows_only_for_published_or_skipped [OF run]
  have tr: "trace ?fin
       = [Fetch_meta url_c, Mark url_c ''News C'' ''general-news'',
          Fetch_meta url_b, Format_caption url_b, Send url_b call_b Post_not_ok]"
    by code_simp
  have rows: "map row_url (store ?fin) = [url_c]" by code_simp
  have fc: "fetch_article_meta halting_world url_c = Inr (Some 0, None, None)" by code_simp
  have co: "0 < run_cutoff halting_world" by code_simp
  have ne: "url_b \<noteq> url_c" by (simp add: url_b_def url_c_def)
  have mem: "Send url_b call_b Post_not_ok \<in> set (trace ?fin)" by (simp add: tr)
  have no: "Post_not_ok \<noteq> Post_ok" by simp
  from inst mem no
  have r: "?r = Some (post_error Post_not_ok)"
    and ex: "\<exists>es0. trace ?fin = es0 @ [Fetch_meta url_b, Format_caption url_b,
                                        Send url_b call_b Post_not_ok]
                \<and> marked (trace ?fin) = marked es0
                \<and> (url_b \<notin> set (fetched es0) \<longrightarrow> \<not> already_posted (store ?fin) url_b)"
    by blast+
  from inst have "post_error Post_not_ok = Telegram_api_error" by blast
  with r have r': "?r = Some Telegram_api_error" by simp
  from ex obtain es0 where
    e0: "trace ?fin = es0 @ [Fetch_meta url_b, Format_caption url_b, Send url_b call_b Post_not_ok]"
    and fr: "url_b \<notin> set (fetched es0) \<longrightarrow> \<not> already_posted (store ?fin) url_b"
    by auto
  from e0 have "es0 = [Fetch_meta url_c, Mark url_c ''News C'' ''general-news'']"
    unfolding tr by simp
  with fr ne have fresh: "\<not> already_posted (store ?fin) url_b" by simp
  have pf: "fst ?p = Some Telegram_api_error" by code_simp
  then have pc: "?p = (Some Telegram_api_error, snd ?p)"
    by (simp add: prod_eq_iff)
  from inst have "\<forall>cand s e s1 rest.
          process_candidate halting_world (run_cutoff halting_world) cand s = (Some e, s1) \<longrightarrow>
          store s1 = store s \<and> posted_count s1 = posted_count s
          \<and> (posted_count s < MAX_POSTS_PER_RUN \<longrightarrow>
               run_loop halting_world (run_cutoff halting_world) (cand # rest) s = (Some e, s1))"
    by (elim conjE)
  with pc have "store (snd ?p) = store ?init" by blast
  then have ps: "store (snd ?p) = []" by simp
  from r' tr rows fc co fresh pf ps show ?thesis by (intro conjI)
qed

subsection \<open>Collecting links\<close>

lemma unique_keep_order_keys:
  "distinct (map key (unique_keep_order key seen xs))
   \<and> key ` set (unique_keep_order key seen xs) \<inter> seen = {}"
proof (induction xs arbitrary: seen)
  case Nil
  show ?case by simp
next
  case (Cons a xs)
  show ?case
  proof (cases "key a \<in> seen")
    case True
    with Cons [of seen] show ?thesis by simp
  next
    case False
    with Cons [of "insert (key a) seen"] show ?thesis by auto
  qed
qed

lemma parse_news_index_page_distinct:
  "parse_news_index_page x u = Inr items \<Longrightarrow> distinct (map fst items)"
  using unique_keep_order_keys [of fst "{}"]
  by (auto simp: parse_news_index_page_def Let_def split: option.splits)

lemma page_items_Inr:
  "parse_news_index_page x (index_page_url x p) = Inr items \<Longrightarrow> page_items x p = items"
  by (simp add: page_items_def)

lemma parse_news_index_page_Inr:
  "parse_news_index_page x u = Inr items \<Longrightarrow> http_get x u \<noteq> None"
  by (auto simp: parse_news_index_page_def split: option.splits)

lemma collect_pages_concat:
  "collect_pages x pages acc = Inr all \<Longrightarrow>
   \<exists>k \<le> length pages.
     (pages \<noteq> [] \<longrightarrow> 1 \<le> k)
     \<and> all = acc @ concat (map (page_items x) (take k pages))
     \<and> (\<forall>p \<in> set (take k pages). http_get x (index_page_url x p) \<noteq> None)
     \<and> (k < length pages \<longrightarrow> ARTICLES_PER_PAGE_HINT * PAGES_TO_SCAN \<le> length all)"
proof (induction pages arbitrary: acc)
  case Nil
  then show ?case by simp
next
  case (Cons page pages)
  from Cons.prems obtain items where
    it: "parse_news_index_page x (index_page_url x page) = Inr items"
    by (cases "parse_news_index_page x (index_page_url x page)") auto
  note pi = page_items_Inr [OF it]
  note ok = parse_news_index_page_Inr [OF it]
  show ?case
  proof (cases "ARTICLES_PER_PAGE_HINT * PAGES_TO_SCAN \<le> length (acc @ items)")
    case True
    with Cons.prems it have "all = acc @ items" by (simp add: Let_def)
    with True pi ok show ?thesis
      by (intro exI [of _ 1]) simp
  next
    case False
    with Cons.prems it have "collect_pages x pages (acc @ items) = Inr all"
      by (simp add: Let_def)
    from Cons.IH [OF this] obtain k where k: "k \<le> length pages"
      and a: "all = (acc @ items) @ concat (map (page_items x) (take k pages))"
      and h: "\<forall>p \<in> set (take k pages). http_get x (index_page_url x p) \<noteq> None"
      and c: "k < length pages \<longrightarrow> ARTICLES_PER_PAGE_HINT * PAGES_TO_SCAN \<le> length all"
      by auto
    from k a h c pi ok show ?thesis
      by (intro exI [of _ "Suc k"]) simp
  qed
qed

lemma page_items_distinct: "distinct (map fst (page_items x p))"
  by (cases "parse_news_index_page x (index_page_url x p)")
    (simp_all add: page_items_def parse_news_index_page_distinct)

lemma count_list_distinct:
  "distinct xs \<Longrightarrow> count_list xs u = (if u \<in> set xs then 1 else 0)"
  by (induction xs) auto

lemma count_list_pages:
  "count_list (map fst (concat (map (page_items x) ps))) u
   = length (filter (\<lambda>p. u \<in> fst ` set (page_items x p)) ps)"
  by (induction ps) (simp_all add: count_list_distinct page_items_distinct)

lemma collect_new_links_all_concat:
  assumes "collect_new_links_all x = Inr all"
  shows "\<exists>k. 1 \<le> k \<and> k \<le> PAGES_TO_SCAN
          \<and> (\<forall>p \<in> {1..k}. http_get x (index_page_url x p) \<noteq> None)
          \<and> all = concat (map (page_items x) [1 ..< k + 1])
          \<and> (k < PAGES_TO_SCAN \<longrightarrow> ARTICLES_PER_PAGE_HINT * PAGES_TO_SCAN \<le> length all)"
proof -
  let ?pages = "[1 ..< PAGES_TO_SCAN + 1]"
  from assms have "collect_pages x ?pages [] = Inr all"
    by (simp add: collect_new_links_all_def)
  from collect_pages_concat [OF this] obtain k where k: "k \<le> length ?pages"
    and one: "?pages \<noteq> [] \<longrightarrow> 1 \<le> k"
    and a: "all = [] @ concat (map (page_items x) (take k ?pages))"
    and h: "\<forall>p \<in> set (take k ?pages). http_get x (index_page_url x p) \<noteq> None"
    and c: "k < length ?pages \<longrightarrow> ARTICLES_PER_PAGE_HINT * PAGES_TO_SCAN \<le> length all"
    by auto
  have len: "length ?pages = PAGES_TO_SCAN" by (simp del: upt_Suc)
  from k have k': "k \<le> PAGES_TO_SCAN" by (simp only: len)
  then have tk: "take k ?pages = [1 ..< k + 1]" by (simp add: take_upt del: upt_Suc)
  have "1 \<le> k" using one by (simp add: PAGES_TO_SCAN_def)
  moreover have "\<forall>p \<in> {1..k}. http_get x (index_page_url x p) \<noteq> None"
    using h unfolding tk by auto
  moreover have "all = concat (map (page_items x) [1 ..< k + 1])"
    using a unfolding tk by simp
  moreover have "k < PAGES_TO_SCAN \<longrightarrow> ARTICLES_PER_PAGE_HINT * PAGES_TO_SCAN \<le> length all"
    using c by (simp only: len)
  ultimately show ?thesis using k' by (intro exI [of _ k]) simp
qed

lemma remdups_snoc: "remdups (zs @ [a]) = remdups (filter (\<lambda>z. z \<noteq> a) zs) @ [a]"
  by (induction zs) auto

lemma unique_keep_order_order:
  "map key (unique_keep_order key seen xs)
   = rev (remdups (rev (filter (\<lambda>k. k \<notin> seen) (map key xs))))"
proof (induction xs arbitrary: seen)
  case Nil
  show ?case by simp
next
  case (Cons a xs)
  show ?case
  proof (cases "key a \<in> seen")
    case True
    with Cons [of seen] show ?thesis by simp
  next
    case False
    have f: "filter (\<lambda>z. z \<noteq> key a) (rev (filter (\<lambda>k. k \<notin> seen) (map key xs)))
             = rev (filter (\<lambda>k. k \<notin> insert (key a) seen) (map key xs))"
      by (simp add: rev_filter [symmetric] conj_commute)
    have "rev (remdups (rev (filter (\<lambda>k. k \<notin> seen) (map key (a # xs)))))
          = rev (remdups (rev (filter (\<lambda>k. k \<notin> seen) (map key xs)) @ [key a]))"
      using False by simp
    also have "\<dots> = key a # rev (remdups (rev (filter (\<lambda>k. k \<notin> insert (key a) seen)
                                                    (map key xs))))"
      by (simp only: remdups_snoc f rev_append rev.simps append_Nil append_Cons)
    also have "\<dots> = map key (unique_keep_order key seen (a # xs))"
      using False Cons [of "insert (key a) seen"] by simp
    finally show ?thesis by simp
  qed
qed

lemma unique_keep_order_first:
  "map_of (unique_keep_order fst seen xs) u = (if u \<in> seen then None else map_of xs u)"
proof (induction xs arbitrary: seen)
  case Nil
  show ?case by simp
next
  case (Cons a xs)
  obtain v t where a: "a = (v, t)" by (cases a) auto
  show ?case
  proof (cases "v \<in> seen")
    case True
    with Cons [of seen] a show ?thesis by auto
  next
    case False
    with Cons [of "insert v seen"] a show ?thesis by auto
  qed
qed

lemma unique_keep_order_subseq: "subseq (unique_keep_order key seen xs) xs"
  by (induction xs arbitrary: seen) (auto intro: list_emb_Cons)

lemma parse_news_index_page_items:
  "http_get x u = Some doc \<Longrightarrow>
   parse_news_index_page x u = Inr (unique_keep_order fst {} (index_items x u doc))"
  by (simp add: parse_news_index_page_def index_items_def Let_def)

lemma page_items_links: "page_items x p = unique_keep_order fst {} (page_links x p)"
  by (cases "http_get x (index_page_url x p)")
    (simp_all add: page_items_def page_links_def parse_news_index_page_items
      parse_news_index_page_None)

lemma page_items_urls: "fst ` set (page_items x p) = fst ` set (page_links x p)"
proof -
  have "set (map fst (page_items x p)) = set (map fst (page_links x p))"
    unfolding page_items_links unique_keep_order_order by simp
  then show ?thesis by (simp only: set_map)
qed

lemma parse_news_index_page_first:
  assumes "http_get x u = Some doc"
  shows "\<exists>items. parse_news_index_page x u = Inr items
           \<and> map fst items = rev (remdups (rev (map fst (index_items x u doc))))
           \<and> fst ` set items = fst ` set (index_items x u doc)
           \<and> map_of items = map_of (index_items x u doc)
           \<and> subseq items (index_items x u doc)"
proof -
  let ?raw = "index_items x u doc"
  let ?items = "unique_keep_order fst {} ?raw"
  have 1: "parse_news_index_page x u = Inr ?items"
    by (rule parse_news_index_page_items [OF assms])
  have 2: "map fst ?items = rev (remdups (rev (map fst ?raw)))"
    by (simp add: unique_keep_order_order)
  have "set (map fst ?items) = set (map fst ?raw)"
    unfolding 2 by simp
  then have 3: "fst ` set ?items = fst ` set ?raw" by (simp only: set_map)
  have 4: "map_of ?items = map_of ?raw"
    by (rule ext) (simp add: unique_keep_order_first)
  have 5: "subseq ?items ?raw" by (rule unique_keep_order_subseq)
  from 1 2 3 4 5 show ?thesis by (intro exI [of _ ?items] conjI)
qed

lemma scanned_page:
  assumes "http_get x (index_page_url x p) \<noteq> None"
  shows "parse_news_index_page x (index_page_url x p) = Inr (page_items x p)
         \<and> (\<exists>doc. http_get x (index_page_url x p) = Some doc
                \<and> page_links x p = index_items x (index_page_url x p) doc)"
proof -
  from assms obtain doc where d: "http_get x (index_page_url x p) = Some doc" by auto
  have "parse_news_index_page x (index_page_url x p) = Inr (page_items x p)"
    by (simp add: page_items_def parse_news_index_page_items [OF d])
  moreover have "page_links x p = index_items x (index_page_url x p) doc"
    by (simp add: page_links_def d)
  ultimately show ?thesis using d by simp
qed

lemma count_list_links:
  "count_list (map fst (concat (map (page_items x) ps))) u
   = length (filter (\<lambda>p. u \<in> fst ` set (page_links x p)) ps)"
  by (simp only: count_list_pages page_items_urls)

text \<open>
  C3, as the code has it. The items of one index page are its article links made unique by
  url: every url that the page links to is kept, once, with the text of its first link, and
  the urls stand in the order of their first links (\<open>remdups\<close> keeps the last of equal
  elements, hence the first between two reversals). The collector returns the items of the
  pages it scanned, page after page, as they are: it scans pages \<open>1\<close> to \<open>k\<close>, where \<open>k\<close>
  is the number of pages to scan unless the safety ceiling was reached before, and a url
  occurs in the result once for every scanned page that links to it.
\<close>

theorem C3_unique_within_a_page:
  "(http_get x u = Some doc \<longrightarrow>
      (\<exists>items. parse_news_index_page x u = Inr items
         \<and> map fst items = rev (remdups (rev (map fst (index_items x u doc))))
         \<and> fst ` set items = fst ` set (index_items x u doc)
         \<and> map_of items = map_of (index_items x u doc)
         \<and> subseq items (index_items x u doc)))
   \<and> (parse_news_index_page x u = Inr items \<longrightarrow> distinct (map fst items))
   \<and> (collect_new_links_all x = Inr all \<longrightarrow>
        (\<exists>k. 1 \<le> k \<and> k \<le> PAGES_TO_SCAN
           \<and> (\<forall>p \<in> {1..k}. http_get x (index_page_url x p) \<noteq> None)
           \<and> (\<forall>p \<in> {1..k}.
                 parse_news_index_page x (index_page_url x p) = Inr (page_items x p)
                 \<and> (\<exists>doc. http_get x (index_page_url x p) = Some doc
                        \<and> page_links x p = index_items x (index_page_url x p) doc))
           \<and> all = concat (map (page_items x) [1 ..< k + 1])
           \<and> (k < PAGES_TO_SCAN \<longrightarrow> ARTICLES_PER_PAGE_HINT * PAGES_TO_SCAN \<le> length all)
           \<and> (\<forall>v. count_list (map fst all) v
                    = length (filter (\<lambda>p. v \<in> fst ` set (page_items x p)) [1 ..< k + 1]))
           \<and> (\<forall>v. count_list (map fst all) v
                    = length (filter (\<lambda>p. v \<in> fst ` set (page_links x p)) [1 ..< k + 1]))))"
proof (intro conjI impI)
  assume "http_get x u = Some doc"
  then show "\<exists>items. parse_news_index_page x u = Inr items
         \<and> map fst items = rev (remdups (rev (map fst (index_items x u doc))))
         \<and> fst ` set items = fst ` set (index_items x u doc)
         \<and> map_of items = map_of (index_items x u doc)
         \<and> subseq items (index_items x u doc)"
    by (rule parse_news_index_page_first)
next
  assume "parse_news_index_page x u = Inr items"
  then show "distinct (map fst items)" by (rule parse_news_index_page_distinct)
next
  assume "collect_new_links_all x = Inr all"
  from collect_new_links_all_concat [OF this] obtain k where
    1: "1 \<le> k" "k \<le> PAGES_TO_SCAN"
    and 2: "\<forall>p \<in> {1..k}. http_get x (index_page_url x p) \<noteq> None"
    and 3: "all = concat (map (page_items x) [1 ..< k + 1])"
    and 4: "k < PAGES_TO_SCAN \<longrightarrow> ARTICLES_PER_PAGE_HINT * PAGES_TO_SCAN \<le> length all"
    by auto
  have 5: "\<forall>p \<in> {1..k}.
                 parse_news_index_page x (index_page_url x p) = Inr (page_items x p)
                 \<and> (\<exists>doc. http_get x (index_page_url x p) = Some doc
                        \<and> page_links x p = index_items x (index_page_url x p) doc)"
  proof
    fix p
    assume "p \<in> {1..k}"
    with 2 have "http_get x (index_page_url x p) \<noteq> None" by (rule bspec)
    then show "parse_news_index_page x (index_page_url x p) = Inr (page_items x p)
                 \<and> (\<exists>doc. http_get x (index_page_url x p) = Some doc
                        \<and> page_links x p = index_items x (index_page_url x p) doc)"
      by (rule scanned_page)
  qed
  have 6: "\<forall>v. count_list (map fst all) v
                = length (filter (\<lambda>p. v \<in> fst ` set (page_items x p)) [1 ..< k + 1])"
    unfolding 3 by (simp add: count_list_pages del: upt_Suc)
  have 7: "\<forall>v. count_list (map fst all) v
                = length (filter (\<lambda>p. v \<in> fst ` set (page_links x p)) [1 ..< k + 1])"
    unfolding 3 by (simp add: count_list_links del: upt_Suc)
  from 1 2 5 3 4 6 7
  show "\<exists>k. 1 \<le> k \<and> k \<le> PAGES_TO_SCAN
           \<and> (\<forall>p \<in> {1..k}. http_get x (index_page_url x p) \<noteq> None)
           \<and> (\<forall>p \<in> {1..k}.
                 parse_news_index_page x (index_page_url x p) = Inr (page_items x p)
                 \<and> (\<exists>doc. http_get x (index_page_url x p) = Some doc
                        \<and> page_links x p = index_items x (index_page_url x p) doc))
           \<and> all = concat (map (page_items x) [1 ..< k + 1])
           \<and> (k < PAGES_TO_SCAN \<longrightarrow> ARTICLES_PER_PAGE_HINT * PAGES_TO_SCAN \<le> length all)
           \<and> (\<forall>v. count_list (map fst all) v
                    = length (filter (\<lambda>p. v \<in> fst ` set (page_items x p)) [1 ..< k + 1]))
           \<and> (\<forall>v. count_list (map fst all) v
                    = length (filter (\<lambda>p. v \<in> fst ` set (page_links x p)) [1 ..< k + 1]))"
    by (intro exI [of _ k] conjI)
qed

theorem C3_unique_within_a_page_witness:
  "http_get repeating_world NEWS_INDEX_URL = Some sample_index
   \<and> index_items repeating_world NEWS_INDEX_URL sample_index
     = [(url_a, ''Update A''), (url_a, ''Read more''), (url_b, ''Sale B''), (url_c, ''News C'')]
   \<and> parse_news_index_page repeating_world NEWS_INDEX_URL
     = Inr [(url_a, ''Update A''), (url_b, ''Sale B''), (url_c, ''News C'')]
   \<and> map_of [(url_a, ''Update A''), (url_b, ''Sale B''), (url_c, ''News C'')]
     = map_of (index_items repeating_world NEWS_INDEX_URL sample_index)
   \<and> subseq [(url_a, ''Update A''), (url_b, ''Sale B''), (url_c, ''News C'')]
        (index_items repeating_world NEWS_INDEX_URL sample_index)
   \<and> fst ` set [(url_a, ''Update A''), (url_b, ''Sale B''), (url_c, ''News C'')]
     = fst ` set (index_items repeating_world NEWS_INDEX_URL sample_index)
   \<and> distinct (map fst [(url_a, ''Update A''), (url_b, ''Sale B''), (url_c, ''News C'')])
   \<and> collect_new_links_all repeating_world
     = Inr [(url_a, ''Update A''), (url_b, ''Sale B''), (url_c, ''News C''), (url_a, ''Update A'')]
   \<and> [(url_a, ''Update A''), (url_b, ''Sale B''), (url_c, ''News C''), (url_a, ''Update A'')]
     = concat (map (page_items repeating_world) [1 ..< PAGES_TO_SCAN + 1])
   \<and> count_list (map fst [(url_a, ''Update A''), (url_b, ''Sale B''), (url_c, ''News C''),
                            (url_a, ''Update A'')]) url_a
     = length (filter (\<lambda>p. url_a \<in> fst ` set (page_links repeating_world p))
                [1 ..< PAGES_TO_SCAN + 1])"
proof -
  let ?raw = "index_items repeating_world NEWS_INDEX_URL sample_index"
  let ?one = "[(url_a, ''Update A''), (url_b, ''Sale B''), (url_c, ''News C'')]"
  let ?all = "[(url_a, ''Update A''), (url_b, ''Sale B''), (url_c, ''News C''),
               (url_a, ''Update A'')]"
  note inst = C3_unique_within_a_page [of repeating_world NEWS_INDEX_URL sample_index ?one ?all]
  have g: "http_get repeating_world NEWS_INDEX_URL = Some sample_index" by code_simp
  have w: "?raw = [(url_a, ''Update A''), (url_a, ''Read more''), (url_b, ''Sale B''),
                   (url_c, ''News C'')]"
    by code_simp
  have p: "parse_news_index_page repeating_world NEWS_INDEX_URL = Inr ?one" by code_simp
  have c: "collect_new_links_all repeating_world = Inr ?all" by code_simp
  from inst have "http_get repeating_world NEWS_INDEX_URL = Some sample_index \<longrightarrow>
      (\<exists>items. parse_news_index_page repeating_world NEWS_INDEX_URL = Inr items
         \<and> map fst items = rev (remdups (rev (map fst ?raw)))
         \<and> fst ` set items = fst ` set ?raw
         \<and> map_of items = map_of ?raw
         \<and> subseq items ?raw)"
    by (rule conjunct1)
  from this g obtain items where i: "parse_news_index_page repeating_world NEWS_INDEX_URL = Inr items"
    and f: "fst ` set items = fst ` set ?raw"
    and m: "map_of items = map_of ?raw"
    and s: "subseq items ?raw"
    by blast
  from i p have "items = ?one" by simp
  with f m s have f': "fst ` set ?one = fst ` set ?raw" and m': "map_of ?one = map_of ?raw"
    and s': "subseq ?one ?raw"
    by (simp_all only:)
  from inst have "parse_news_index_page repeating_world NEWS_INDEX_URL = Inr ?one \<longrightarrow>
      distinct (map fst ?one)"
    by (elim conjE)
  from this p have d: "distinct (map fst ?one)" by (rule mp)
  from inst have "collect_new_links_all repeating_world = Inr ?all \<longrightarrow>
        (\<exists>k. 1 \<le> k \<and> k \<le> PAGES_TO_SCAN
           \<and> (\<forall>p \<in> {1..k}. http_get repeating_world (index_page_url repeating_world p) \<noteq> None)
           \<and> (\<forall>p \<in> {1..k}.
                 parse_news_index_page repeating_world (index_page_url repeating_world p)
                   = Inr (page_items repeating_world p)
                 \<and> (\<exists>doc. http_get repeating_world (index_page_url repeating_world p) = Some doc
                        \<and> page_links repeating_world p
                          = index_items repeating_world (index_page_url repeating_world p) doc))
           \<and> ?all = concat (map (page_items repeating_world) [1 ..< k + 1])
           \<and> (k < PAGES_TO_SCAN \<longrightarrow> ARTICLES_PER_PAGE_HINT * PAGES_TO_SCAN \<le> length ?all)
           \<and> (\<forall>v. count_list (map fst ?all) v
                    = length (filter (\<lambda>p. v \<in> fst ` set (page_items repeating_world p))
                               [1 ..< k + 1]))
           \<and> (\<forall>v. count_list (map fst ?all) v
                    = length (filter (\<lambda>p. v \<in> fst ` set (page_links repeating_world p))
                               [1 ..< k + 1])))"
    by (elim conjE)
  from this c obtain k where k: "k \<le> PAGES_TO_SCAN"
    and a: "?all = concat (map (page_items repeating_world) [1 ..< k + 1])"
    and e: "k < PAGES_TO_SCAN \<longrightarrow> ARTICLES_PER_PAGE_HINT * PAGES_TO_SCAN \<le> length ?all"
    and n: "\<forall>v. count_list (map fst ?all) v
               = length (filter (\<lambda>p. v \<in> fst ` set (page_links repeating_world p)) [1 ..< k + 1])"
    by blast
  from e have "\<not> k < PAGES_TO_SCAN"
    by (simp add: ARTICLES_PER_PAGE_HINT_def PAGES_TO_SCAN_def)
  with k have "k = PAGES_TO_SCAN" by simp
  with a n [rule_format, of url_a] have
    a': "?all = concat (map (page_items repeating_world) [1 ..< PAGES_TO_SCAN + 1])"
    and n': "count_list (map fst ?all) url_a
      = length (filter (\<lambda>p. url_a \<in> fst ` set (page_links repeating_world p))
                 [1 ..< PAGES_TO_SCAN + 1])"
    by (simp_all only:)
  from g w p m' s' f' d c a' n' show ?thesis by (intro conjI)
qed

text \<open>
  On the sample site with article \<open>a\<close> listed on the second index page too, the collector
  returns the url of \<open>a\<close> twice.
\<close>

theorem C3_counterexample:
  "collect_new_links_all repeating_world
     = Inr [(url_a, ''Update A''), (url_b, ''Sale B''), (url_c, ''News C''), (url_a, ''Update A'')]
   \<and> \<not> distinct (map fst [(url_a, ''Update A''), (url_b, ''Sale B''), (url_c, ''News C''),
                             (url_a, ''Update A'')])
   \<and> count_list (map fst [(url_a, ''Update A''), (url_b, ''Sale B''), (url_c, ''News C''),
                             (url_a, ''Update A'')]) url_a = 2"
proof -
  have "collect_new_links_all repeating_world
     = Inr [(url_a, ''Update A''), (url_b, ''Sale B''), (url_c, ''News C''), (url_a, ''Update A'')]"
    by code_simp
  then show ?thesis by (simp add: url_a_def url_b_def url_c_def)
qed

subsection \<open>A failed request for an index page\<close>

lemma collect_pages_failure:
  assumes "http_get x (index_page_url x p) = None"
    and "\<forall>q \<in> set pre. http_get x (index_page_url x q) \<noteq> None"
    and "length (acc @ concat (map (page_items x) pre)) < ARTICLES_PER_PAGE_HINT * PAGES_TO_SCAN"
  shows "collect_pages x (pre @ p # post) acc = Inl (Request_failed (index_page_url x p))"
  using assms(2,3)
proof (induction pre arbitrary: acc)
  case Nil
  show ?case by (simp add: parse_news_index_page_None [OF assms(1)])
next
  case (Cons q pre)
  from Cons.prems(1) have "http_get x (index_page_url x q) \<noteq> None" by simp
  from parse_news_index_page_ok [OF this] obtain items where
    it: "parse_news_index_page x (index_page_url x q) = Inr items"
    by auto
  note pi = page_items_Inr [OF it]
  from Cons.prems(2) pi have
    len: "length ((acc @ items) @ concat (map (page_items x) pre))
          < ARTICLES_PER_PAGE_HINT * PAGES_TO_SCAN"
    by simp
  then have small: "\<not> ARTICLES_PER_PAGE_HINT * PAGES_TO_SCAN \<le> length (acc @ items)"
    by simp
  from Cons.prems(1) have "\<forall>q \<in> set pre. http_get x (index_page_url x q) \<noteq> None" by simp
  from Cons.IH [OF this len]
  have "collect_pages x (pre @ p # post) (acc @ items) = Inl (Request_failed (index_page_url x p))" .
  with it small show ?case by (simp add: Let_def)
qed

lemma collect_pages_failed_page:
  "collect_pages x pages acc = Inl e \<Longrightarrow>
   \<exists>p \<in> set pages. e = Request_failed (index_page_url x p) \<and> http_get x (index_page_url x p) = None"
proof (induction pages arbitrary: acc)
  case Nil
  then show ?case by simp
next
  case (Cons page pages)
  show ?case
  proof (cases "parse_news_index_page x (index_page_url x page)")
    case (Inl e')
    with Cons.prems have "e' = e" by simp
    with parse_news_index_page_error Inl show ?thesis by fastforce
  next
    case (Inr items)
    with Cons.prems have "collect_pages x pages (acc @ items) = Inl e"
      by (simp add: Let_def split: if_splits)
    from Cons.IH [OF this] show ?thesis by auto
  qed
qed

lemma upt_split: "i \<le> p \<Longrightarrow> p < n \<Longrightarrow> [i ..< n] = [i ..< p] @ p # [Suc p ..< n]"
proof -
  assume le: "i \<le> p" and lt: "p < n"
  from lt obtain k where n: "n = p + k" and k: "0 < k"
    by (metis less_imp_add_positive)
  from upt_add_eq_append [OF le, of k] have "[i ..< n] = [i ..< p] @ [p ..< n]"
    by (simp only: n)
  with upt_conv_Cons [OF lt] show ?thesis by simp
qed

lemma collect_new_links_all_failure:
  assumes "http_get x (index_page_url x p) = None" and "1 \<le> p" and "p \<le> PAGES_TO_SCAN"
    and "\<forall>q \<in> {1 ..< p}. http_get x (index_page_url x q) \<noteq> None"
    and "length (concat (map (page_items x) [1 ..< p])) < ARTICLES_PER_PAGE_HINT * PAGES_TO_SCAN"
  shows "collect_new_links_all x = Inl (Request_failed (index_page_url x p))"
proof -
  from assms(2,3) have "[1 ..< PAGES_TO_SCAN + 1] = [1 ..< p] @ p # [Suc p ..< PAGES_TO_SCAN + 1]"
    by (intro upt_split) simp_all
  moreover have "collect_pages x ([1 ..< p] @ p # [Suc p ..< PAGES_TO_SCAN + 1]) []
      = Inl (Request_failed (index_page_url x p))"
    using assms(1,4,5) by (intro collect_pages_failure) simp_all
  ultimately show ?thesis by (simp only: collect_new_links_all_def)
qed

lemma run_once_collect_error:
  assumes "truthy (env_bot_token x)" and "truthy (env_channel x)"
    and "collect_new_links_all x = Inl e"
  shows "run_once x file
     = (Some e, \<lparr>store = init_db file, clock_reads = 1, posted_count = 0, trace = []\<rparr>)"
  using assms by (simp add: run_once_def Let_def)

text \<open>
  C4, as the code has it. The request for an index page has no handler around it. When the
  request for page \<open>p\<close> fails, the pages before it were read and the safety ceiling was not
  reached before \<open>p\<close>, the collection fails with the error of that request and returns no
  candidates. A run whose collection fails ends with that error before its loop: nothing is
  fetched, sent or marked, and the table is as \<open>init_db\<close> left it. The only way the
  collection fails is a failed request for one of the index pages.
\<close>

theorem C4_listing_failure_ends_run:
  "(http_get x (index_page_url x p) = None \<longrightarrow> 1 \<le> p \<longrightarrow> p \<le> PAGES_TO_SCAN \<longrightarrow>
      (\<forall>q \<in> {1 ..< p}. http_get x (index_page_url x q) \<noteq> None) \<longrightarrow>
      length (concat (map (page_items x) [1 ..< p])) < ARTICLES_PER_PAGE_HINT * PAGES_TO_SCAN \<longrightarrow>
      collect_new_links_all x = Inl (Request_failed (index_page_url x p)))
   \<and> (truthy (env_bot_token x) \<longrightarrow> truthy (env_channel x) \<longrightarrow>
      collect_new_links_all x = Inl e \<longrightarrow>
      run_once x file
        = (Some e, \<lparr>store = init_db file, clock_reads = 1, posted_count = 0, trace = []\<rparr>))
   \<and> (collect_new_links_all x = Inl e \<longrightarrow>
      (\<exists>p \<in> {1 .. PAGES_TO_SCAN}.
         e = Request_failed (index_page_url x p) \<and> http_get x (index_page_url x p) = None))"
proof (intro conjI impI)
  assume "http_get x (index_page_url x p) = None" "1 \<le> p" "p \<le> PAGES_TO_SCAN"
    "\<forall>q \<in> {1 ..< p}. http_get x (index_page_url x q) \<noteq> None"
    "length (concat (map (page_items x) [1 ..< p])) < ARTICLES_PER_PAGE_HINT * PAGES_TO_SCAN"
  then show "collect_new_links_all x = Inl (Request_failed (index_page_url x p))"
    by (rule collect_new_links_all_failure)
next
  assume "truthy (env_bot_token x)" "truthy (env_channel x)" "collect_new_links_all x = Inl e"
  then show "run_once x file
        = (Some e, \<lparr>store = init_db file, clock_reads = 1, posted_count = 0, trace = []\<rparr>)"
    by (rule run_once_collect_error)
next
  assume "collect_new_links_all x = Inl e"
  then have "collect_pages x [1 ..< PAGES_TO_SCAN + 1] [] = Inl e"
    by (simp only: collect_new_links_all_def)
  from collect_pages_failed_page [OF this]
  obtain p where "p \<in> set [1 ..< PAGES_TO_SCAN + 1]"
    and e: "e = Request_failed (index_page_url x p)" "http_get x (index_page_url x p) = None"
    by auto
  then have "p \<in> {1 .. PAGES_TO_SCAN}" by (auto simp del: upt_Suc)
  with e show "\<exists>p \<in> {1 .. PAGES_TO_SCAN}.
         e = Request_failed (index_page_url x p) \<and> http_get x (index_page_url x p) = None"
    by (intro bexI [of _ p] conjI)
qed

theorem C4_listing_failure_ends_run_witness:
  "http_get failing_world (index_page_url failing_world 2) = None
   \<and> http_get failing_world (index_page_url failing_world 1) \<noteq> None
   \<and> length (concat (map (page_items failing_world) [1 ..< 2]))
       < ARTICLES_PER_PAGE_HINT * PAGES_TO_SCAN
   \<and> truthy (env_bot_token failing_world) \<and> truthy (env_channel failing_world)
   \<and> collect_new_links_all failing_world = Inl (Request_failed url_page2)
   \<and> run_once failing_world None
       = (Some (Request_failed url_page2),
          \<lparr>store = [], clock_reads = 1, posted_count = 0, trace = []\<rparr>)"
proof -
  have u: "index_page_url failing_world 2 = url_page2" by code_simp
  have h: "http_get failing_world (index_page_url failing_world 2) = None" by code_simp
  have h1: "http_get failing_world (index_page_url failing_world 1) \<noteq> None" by code_simp
  have q: "\<forall>q \<in> {1 ..< 2}. http_get failing_world (index_page_url failing_world q) \<noteq> None"
  proof
    fix q :: nat
    assume "q \<in> {1 ..< 2}"
    then have "q = 1" by auto
    with h1 show "http_get failing_world (index_page_url failing_world q) \<noteq> None" by simp
  qed
  have l: "length (concat (map (page_items failing_world) [1 ..< 2]))
       < ARTICLES_PER_PAGE_HINT * PAGES_TO_SCAN"
    by code_simp
  have t: "truthy (env_bot_token failing_world)" "truthy (env_channel failing_world)"
    by code_simp+
  have b: "(1::nat) \<le> 2" "2 \<le> PAGES_TO_SCAN" by (simp_all add: PAGES_TO_SCAN_def)
  note inst = C4_listing_failure_ends_run [of failing_world 2 "Request_failed url_page2" None]
  from inst h b q l
  have c: "collect_new_links_all failing_world = Inl (Request_failed url_page2)"
    unfolding u by (elim conjE) simp
  from inst t c
  have "run_once failing_world None
       = (Some (Request_failed url_page2),
          \<lparr>store = init_db None, clock_reads = 1, posted_count = 0, trace = []\<rparr>)"
    by (elim conjE) simp
  then have r: "run_once failing_world None
       = (Some (Request_failed url_page2),
          \<lparr>store = [], clock_reads = 1, posted_count = 0, trace = []\<rparr>)"
    by (simp add: init_db_def)
  from h h1 l t c r show ?thesis by (intro conjI)
qed

text \<open>
  On the sample site while the request for the second index page fails: the first page
  gives three candidates, and the run ends with the error of the failed request, with no
  event and no row. Without the failure the same site gets two articles published.
\<close>

theorem C4_counterexample:
  "http_get failing_world (index_page_url failing_world 2) = None
   \<and> parse_news_index_page failing_world (index_page_url failing_world 1)
       = Inr [(url_a, ''Update A''), (url_b, ''Sale B''), (url_c, ''News C'')]
   \<and> fst (run_once failing_world None) = Some (Request_failed url_page2)
   \<and> trace (snd (run_once failing_world None)) = []
   \<and> store (snd (run_once failing_world None)) = []
   \<and> published (trace (snd (run_once sample_world None))) = [url_c, url_b]"
  by code_simp

end
